theory Spec2Isabelle
  imports Complex_Main "HOL-Library.Log_Nat"
begin

section \<open>IEEE-754 binary64 values: the C++ type \<open>double\<close>\<close>

text \<open>
  The header \<open>include/math/vec2.hpp\<close> computes on \<open>double\<close> only.  A \<open>double\<close> is
  modelled by its IEEE-754 binary64 datum: a NaN (the payload is not observable by any
  operation of the header and is abstracted to one value), a signed infinity, or a signed
  finite magnitude.  The sign is \<open>True\<close> for a set sign bit, so \<open>Fin True 0\<close> is the
  negative zero.  Every arithmetic operation computes the exact real result and rounds it
  once to the nearest binary64 value, ties to even (the default rounding mode; no extended
  precision and no fused multiply-add).
\<close>

datatype double = NaN | Inf bool | Fin bool real

subsection \<open>Rounding to nearest, ties to even\<close>

text \<open>\<open>floorlog2 q\<close> is the binary exponent of a positive real: \<open>2^e \<le> q < 2^(e+1)\<close>.\<close>

definition floorlog2 :: "real \<Rightarrow> int" where
  "floorlog2 q = (if 1 \<le> q then bitlen \<lfloor>q\<rfloor> - 1 else - bitlen (\<lceil>1 / q\<rceil> - 1))"

text \<open>
  The exponent of the unit in the last place of the binary64 values around \<open>q\<close>:
  53 significant bits, and never below the subnormal spacing \<open>2^-1074\<close>.
\<close>

definition ulp_exp :: "real \<Rightarrow> int" where
  "ulp_exp q = max (floorlog2 q - 52) (- 1074)"

definition round_half_even :: "real \<Rightarrow> int" where
  "round_half_even r =
     (let n = \<lfloor>r\<rfloor>; f = r - of_int n
      in if f < 1 / 2 then n else if 1 / 2 < f then n + 1
         else if even n then n else n + 1)"

text \<open>The magnitude \<open>q\<close> rounded to 53 bits, the exponent not yet bounded above.\<close>

definition round_mag :: "real \<Rightarrow> real" where
  "round_mag q =
     (if q \<le> 0 then 0
      else of_int (round_half_even (q / 2 powi ulp_exp q)) * 2 powi ulp_exp q)"

text \<open>The rounded result with its sign; a magnitude that rounds to \<open>2^1024\<close> overflows.\<close>

definition round_double :: "bool \<Rightarrow> real \<Rightarrow> double" where
  "round_double s q = (let r = round_mag q in if 2 ^ 1024 \<le> r then Inf s else Fin s r)"

text \<open>The binary64 magnitudes, and the well-formed values of the type.\<close>

definition is_mag :: "real \<Rightarrow> bool" where
  "is_mag q \<longleftrightarrow>
     q = 0 \<or> (0 < q \<and> q < 2 ^ 1024 \<and>
       of_int \<lfloor>q / 2 powi ulp_exp q\<rfloor> = q / 2 powi ulp_exp q)"

fun is_double :: "double \<Rightarrow> bool" where
  "is_double NaN = True"
| "is_double (Inf s) = True"
| "is_double (Fin s q) = is_mag q"

fun is_finite :: "double \<Rightarrow> bool" where
  "is_finite (Fin s q) = True"
| "is_finite _ = False"

fun is_nan :: "double \<Rightarrow> bool" where
  "is_nan NaN = True"
| "is_nan _ = False"

text \<open>The real number a finite value stands for.\<close>

definition sval :: "bool \<Rightarrow> real \<Rightarrow> real" where
  "sval s q = (if s then - q else q)"

subsection \<open>Arithmetic\<close>

fun double_neg :: "double \<Rightarrow> double" where
  "double_neg NaN = NaN"
| "double_neg (Inf s) = Inf (\<not> s)"
| "double_neg (Fin s q) = Fin (\<not> s) q"

text \<open>
  Addition: an exact zero sum of two finite values is \<open>-0\<close> only when both operands
  carry the sign bit (two negative zeros), otherwise \<open>+0\<close>; opposite infinities give NaN.
\<close>

fun double_add :: "double \<Rightarrow> double \<Rightarrow> double" where
  "double_add NaN b = NaN"
| "double_add a NaN = NaN"
| "double_add (Inf s) (Inf t) = (if s = t then Inf s else NaN)"
| "double_add (Inf s) (Fin t q) = Inf s"
| "double_add (Fin s p) (Inf t) = Inf t"
| "double_add (Fin s p) (Fin t q) =
     (let v = sval s p + sval t q
      in if v = 0 then Fin (s \<and> t) 0 else round_double (v < 0) \<bar>v\<bar>)"

definition double_sub :: "double \<Rightarrow> double \<Rightarrow> double" where
  "double_sub a b = double_add a (double_neg b)"

fun double_mul :: "double \<Rightarrow> double \<Rightarrow> double" where
  "double_mul NaN b = NaN"
| "double_mul a NaN = NaN"
| "double_mul (Inf s) (Inf t) = Inf (s \<noteq> t)"
| "double_mul (Inf s) (Fin t q) = (if q = 0 then NaN else Inf (s \<noteq> t))"
| "double_mul (Fin s p) (Inf t) = (if p = 0 then NaN else Inf (s \<noteq> t))"
| "double_mul (Fin s p) (Fin t q) = round_double (s \<noteq> t) (p * q)"

fun double_div :: "double \<Rightarrow> double \<Rightarrow> double" where
  "double_div NaN b = NaN"
| "double_div a NaN = NaN"
| "double_div (Inf s) (Inf t) = NaN"
| "double_div (Inf s) (Fin t q) = Inf (s \<noteq> t)"
| "double_div (Fin s p) (Inf t) = Fin (s \<noteq> t) 0"
| "double_div (Fin s p) (Fin t q) =
     (if q = 0 then (if p = 0 then NaN else Inf (s \<noteq> t))
      else round_double (s \<noteq> t) (p / q))"

subsection \<open>Square root\<close>

text \<open>The integer square root, by the digit recurrence on base 4.\<close>

fun isqrt :: "nat \<Rightarrow> nat" where
  "isqrt n =
     (if n < 2 then n
      else let r = 2 * isqrt (n div 4)
           in if (r + 1) * (r + 1) \<le> n then r + 1 else r)"

declare isqrt.simps [simp del]

text \<open>
  \<open>std::sqrt\<close> is correctly rounded.  The root of a positive binary64 magnitude is a
  normal number, so the unit in the last place is 52 binary places below the exponent of
  the root, and the rounding direction is decided on the squares.
\<close>

definition sqrt_mag :: "real \<Rightarrow> real" where
  "sqrt_mag q =
     (if q \<le> 0 then 0
      else let e = floorlog2 q div 2 - 52;
               t = q / 2 powi (2 * e);
               n = int (isqrt (nat \<lfloor>t\<rfloor>));
               h = (of_int n + 1 / 2) ^ 2;
               m = (if t < h then n else if h < t then n + 1
                    else if even n then n else n + 1)
           in of_int m * 2 powi e)"

fun double_sqrt :: "double \<Rightarrow> double" where
  "double_sqrt NaN = NaN"
| "double_sqrt (Inf s) = (if s then NaN else Inf False)"
| "double_sqrt (Fin s q) =
     (if q = 0 then Fin s 0 else if s then NaN else Fin False (sqrt_mag q))"

subsection \<open>Comparison\<close>

text \<open>
  The built-in comparisons of \<open>double\<close>: a NaN compares unequal and unordered to
  everything, itself included, and the two zeros compare equal.
\<close>

fun double_eq :: "double \<Rightarrow> double \<Rightarrow> bool" where
  "double_eq NaN b = False"
| "double_eq a NaN = False"
| "double_eq (Inf s) (Inf t) = (s = t)"
| "double_eq (Inf s) (Fin t q) = False"
| "double_eq (Fin s p) (Inf t) = False"
| "double_eq (Fin s p) (Fin t q) = (sval s p = sval t q)"

fun double_lt :: "double \<Rightarrow> double \<Rightarrow> bool" where
  "double_lt NaN b = False"
| "double_lt a NaN = False"
| "double_lt (Inf s) (Inf t) = (s \<and> \<not> t)"
| "double_lt (Inf s) (Fin t q) = s"
| "double_lt (Fin s p) (Inf t) = (\<not> t)"
| "double_lt (Fin s p) (Fin t q) = (sval s p < sval t q)"

text \<open>\<open>a <=> b\<close> on \<open>double\<close> has the type \<open>std::partial_ordering\<close>.\<close>

datatype partial_ordering = less | equivalent | greater | unordered

definition double_cmp :: "double \<Rightarrow> double \<Rightarrow> partial_ordering" where
  "double_cmp a b =
     (if double_eq a b then equivalent
      else if double_lt a b then less
      else if double_lt b a then greater
      else unordered)"

text \<open>The literals of the header and of the specification.\<close>

definition d_zero :: double where
  "d_zero = Fin False 0"

definition d_one :: double where
  "d_one = Fin False 1"

definition double_gt :: "double \<Rightarrow> double \<Rightarrow> bool" where
  "double_gt a b = double_lt b a"

section \<open>The vector type of \<open>include/math/vec2.hpp\<close>\<close>

text \<open>\<open>struct Vec2 { double x{0.0}; double y{0.0}; ... }\<close>\<close>

record Vec2 =
  x :: double
  y :: double

text \<open>The default constructor \<open>Vec2{}\<close>: both members are \<open>0.0\<close>.\<close>

definition Vec2_default :: Vec2 where
  "Vec2_default = \<lparr>x = d_zero, y = d_zero\<rparr>"

text \<open>
  \<open>Scalar auto s\<close> (\<open>include/core/concepts.hpp\<close>) admits every floating-point and every
  integral argument.  In \<open>x * s\<close> and \<open>x / s\<close> the usual arithmetic conversions turn an
  integral \<open>s\<close> into a \<open>double\<close> first (to the nearest value, where it is not exact); a
  \<open>float\<close> converts exactly and is a \<open>double\<close> already.  A \<open>long double\<close> argument is
  left out: \<open>Vec2{x * s, y * s}\<close> would narrow a \<open>long double\<close> product inside braces,
  so \<open>operator*\<close> and \<open>operator/\<close> do not instantiate for it.
\<close>

datatype scalar = SDouble double | SInt int

fun to_double :: "scalar \<Rightarrow> double" where
  "to_double (SDouble d) = d"
| "to_double (SInt i) = round_double (i < 0) \<bar>of_int i\<bar>"

subsection \<open>Arithmetic operators\<close>

definition Vec2_plus :: "Vec2 \<Rightarrow> Vec2 \<Rightarrow> Vec2" where
  "Vec2_plus v other = \<lparr>x = double_add (x v) (x other), y = double_add (y v) (y other)\<rparr>"

definition Vec2_minus :: "Vec2 \<Rightarrow> Vec2 \<Rightarrow> Vec2" where
  "Vec2_minus v other = \<lparr>x = double_sub (x v) (x other), y = double_sub (y v) (y other)\<rparr>"

definition Vec2_times :: "Vec2 \<Rightarrow> scalar \<Rightarrow> Vec2" where
  "Vec2_times v s = \<lparr>x = double_mul (x v) (to_double s), y = double_mul (y v) (to_double s)\<rparr>"

definition Vec2_divide :: "Vec2 \<Rightarrow> scalar \<Rightarrow> Vec2" where
  "Vec2_divide v s = \<lparr>x = double_div (x v) (to_double s), y = double_div (y v) (to_double s)\<rparr>"

definition Vec2_uminus :: "Vec2 \<Rightarrow> Vec2" where
  "Vec2_uminus v = \<lparr>x = double_neg (x v), y = double_neg (y v)\<rparr>"

text \<open>The free function \<open>operator*(Scalar auto s, const Vec2& v)\<close>.\<close>

definition scalar_times_Vec2 :: "scalar \<Rightarrow> Vec2 \<Rightarrow> Vec2" where
  "scalar_times_Vec2 s v =
     \<lparr>x = double_mul (x v) (to_double s), y = double_mul (y v) (to_double s)\<rparr>"

subsection \<open>Compound assignment operators\<close>

text \<open>
  The compound operators write through \<open>this\<close> and return \<open>*this\<close> by reference; the
  argument of \<open>+=\<close> and \<open>-=\<close> is a reference too and may be the receiver itself.  Objects
  live in a store, a reference is an address, and the two member assignments are two
  writes in the order of the source.
\<close>

type_synonym addr = nat
type_synonym store = "addr \<Rightarrow> Vec2"

definition Vec2_plus_assign :: "store \<Rightarrow> addr \<Rightarrow> addr \<Rightarrow> addr \<times> store" where
  "Vec2_plus_assign h this other =
     (let h1 = h(this := (h this)\<lparr>x := double_add (x (h this)) (x (h other))\<rparr>);
          h2 = h1(this := (h1 this)\<lparr>y := double_add (y (h1 this)) (y (h1 other))\<rparr>)
      in (this, h2))"

definition Vec2_minus_assign :: "store \<Rightarrow> addr \<Rightarrow> addr \<Rightarrow> addr \<times> store" where
  "Vec2_minus_assign h this other =
     (let h1 = h(this := (h this)\<lparr>x := double_sub (x (h this)) (x (h other))\<rparr>);
          h2 = h1(this := (h1 this)\<lparr>y := double_sub (y (h1 this)) (y (h1 other))\<rparr>)
      in (this, h2))"

definition Vec2_times_assign :: "store \<Rightarrow> addr \<Rightarrow> scalar \<Rightarrow> addr \<times> store" where
  "Vec2_times_assign h this s =
     (let h1 = h(this := (h this)\<lparr>x := double_mul (x (h this)) (to_double s)\<rparr>);
          h2 = h1(this := (h1 this)\<lparr>y := double_mul (y (h1 this)) (to_double s)\<rparr>)
      in (this, h2))"

definition Vec2_divide_assign :: "store \<Rightarrow> addr \<Rightarrow> scalar \<Rightarrow> addr \<times> store" where
  "Vec2_divide_assign h this s =
     (let h1 = h(this := (h this)\<lparr>x := double_div (x (h this)) (to_double s)\<rparr>);
          h2 = h1(this := (h1 this)\<lparr>y := double_div (y (h1 this)) (to_double s)\<rparr>)
      in (this, h2))"

subsection \<open>Comparison operators\<close>

text \<open>
  The defaulted \<open>operator<=>\<close> compares the members in declaration order and returns the
  first result that is not \<open>equivalent\<close>; its type is \<open>std::partial_ordering\<close>, the
  comparison category of \<open>double\<close>.  The defaulted \<open>operator==\<close> compares memberwise.
  The relational operators are rewritten by the language: \<open>a < b\<close> is
  \<open>(a <=> b) < 0\<close>, and \<open>a != b\<close> is \<open>!(a == b)\<close>.
\<close>

definition Vec2_spaceship :: "Vec2 \<Rightarrow> Vec2 \<Rightarrow> partial_ordering" where
  "Vec2_spaceship a b =
     (let c = double_cmp (x a) (x b)
      in if c \<noteq> equivalent then c
         else let c' = double_cmp (y a) (y b)
              in if c' \<noteq> equivalent then c' else equivalent)"

definition Vec2_eq :: "Vec2 \<Rightarrow> Vec2 \<Rightarrow> bool" where
  "Vec2_eq a b = (double_eq (x a) (x b) \<and> double_eq (y a) (y b))"

definition Vec2_ne :: "Vec2 \<Rightarrow> Vec2 \<Rightarrow> bool" where
  "Vec2_ne a b = (\<not> Vec2_eq a b)"

definition Vec2_lt :: "Vec2 \<Rightarrow> Vec2 \<Rightarrow> bool" where
  "Vec2_lt a b = (Vec2_spaceship a b = less)"

definition Vec2_le :: "Vec2 \<Rightarrow> Vec2 \<Rightarrow> bool" where
  "Vec2_le a b = (Vec2_spaceship a b = less \<or> Vec2_spaceship a b = equivalent)"

definition Vec2_gt :: "Vec2 \<Rightarrow> Vec2 \<Rightarrow> bool" where
  "Vec2_gt a b = (Vec2_spaceship a b = greater)"

definition Vec2_ge :: "Vec2 \<Rightarrow> Vec2 \<Rightarrow> bool" where
  "Vec2_ge a b = (Vec2_spaceship a b = greater \<or> Vec2_spaceship a b = equivalent)"

subsection \<open>Vector operations\<close>

definition dot :: "Vec2 \<Rightarrow> Vec2 \<Rightarrow> double" where
  "dot v other = double_add (double_mul (x v) (x other)) (double_mul (y v) (y other))"

definition cross :: "Vec2 \<Rightarrow> Vec2 \<Rightarrow> double" where
  "cross v other = double_sub (double_mul (x v) (y other)) (double_mul (y v) (x other))"

definition length_vec2 :: "Vec2 \<Rightarrow> double" where
  "length_vec2 v = double_sqrt (double_add (double_mul (x v) (x v)) (double_mul (y v) (y v)))"

definition length_sq :: "Vec2 \<Rightarrow> double" where
  "length_sq v = double_add (double_mul (x v) (x v)) (double_mul (y v) (y v))"

definition normalized :: "Vec2 \<Rightarrow> Vec2" where
  "normalized v =
     (let len = length_vec2 v
      in if double_gt len d_zero then Vec2_divide v (SDouble len) else Vec2_default)"

definition distance_to :: "Vec2 \<Rightarrow> Vec2 \<Rightarrow> double" where
  "distance_to v other = length_vec2 (Vec2_minus v other)"

definition distance_sq_to :: "Vec2 \<Rightarrow> Vec2 \<Rightarrow> double" where
  "distance_sq_to v other = length_sq (Vec2_minus v other)"

definition perpendicular :: "Vec2 \<Rightarrow> Vec2" where
  "perpendicular v = \<lparr>x = double_neg (y v), y = x v\<rparr>"

definition lerp :: "Vec2 \<Rightarrow> Vec2 \<Rightarrow> double \<Rightarrow> Vec2" where
  "lerp v other t = Vec2_plus v (Vec2_times (Vec2_minus other v) (SDouble t))"

subsection \<open>Classes of vectors used in the statements\<close>

definition no_nan :: "Vec2 \<Rightarrow> bool" where
  "no_nan v \<longleftrightarrow> \<not> is_nan (x v) \<and> \<not> is_nan (y v)"

definition finite_vec :: "Vec2 \<Rightarrow> bool" where
  "finite_vec v \<longleftrightarrow> is_finite (x v) \<and> is_finite (y v)"

definition valid_vec :: "Vec2 \<Rightarrow> bool" where
  "valid_vec v \<longleftrightarrow> is_double (x v) \<and> is_double (y v)"

text \<open>The real number of a finite value (the statements use it on finite values only).\<close>

fun double_val :: "double \<Rightarrow> real" where
  "double_val (Fin s q) = sval s q"
| "double_val NaN = 0"
| "double_val (Inf s) = 0"

text \<open>Two vectors are parallel when their exact cross product is zero; a zero vector is
  parallel to every vector.\<close>

definition parallel :: "Vec2 \<Rightarrow> Vec2 \<Rightarrow> bool" where
  "parallel a b \<longleftrightarrow>
     double_val (x a) * double_val (y b) = double_val (y a) * double_val (x b)"

text \<open>The subtraction \<open>a - b\<close> of two doubles is exact: it neither rounds nor overflows.\<close>

definition exact_sub :: "double \<Rightarrow> double \<Rightarrow> bool" where
  "exact_sub a b \<longleftrightarrow>
     is_finite (double_sub a b) \<and> double_val (double_sub a b) = double_val a - double_val b"

definition exact_minus :: "Vec2 \<Rightarrow> Vec2 \<Rightarrow> bool" where
  "exact_minus a b \<longleftrightarrow> exact_sub (x a) (x b) \<and> exact_sub (y a) (y b)"

text \<open>
  Two finite doubles are \<open>separated\<close> when they stand for the same real or differ by at
  least \<open>2^-537\<close>: the square of their difference then does not underflow to zero.
\<close>

definition separated :: "double \<Rightarrow> double \<Rightarrow> bool" where
  "separated a b \<longleftrightarrow>
     double_val a = double_val b \<or> 2 powi (- 537) \<le> \<bar>double_val a - double_val b\<bar>"

definition separated_vec :: "Vec2 \<Rightarrow> Vec2 \<Rightarrow> bool" where
  "separated_vec a b \<longleftrightarrow> separated (x a) (x b) \<and> separated (y a) (y b)"

text \<open>
  A vector is \<open>moderate\<close> when its components are finite binary64 values and its exact
  Euclidean length lies between \<open>2^-500\<close> and \<open>2^500\<close>: the squares then neither overflow
  nor lose the whole vector to underflow.
\<close>

definition moderate :: "Vec2 \<Rightarrow> bool" where
  "moderate v \<longleftrightarrow>
     valid_vec v \<and> finite_vec v
     \<and> 2 powi (- 1000) \<le> (double_val (x v))\<^sup>2 + (double_val (y v))\<^sup>2
     \<and> (double_val (x v))\<^sup>2 + (double_val (y v))\<^sup>2 \<le> 2 powi 1000"

section \<open>Properties of the comparisons of \<open>double\<close>\<close>

lemma double_eq_sym: "double_eq a b = double_eq b a"
  by (cases a; cases b) auto

lemma double_eq_trans: "double_eq a b \<Longrightarrow> double_eq b c \<Longrightarrow> double_eq a c"
  by (cases a; cases b; cases c) auto

lemma double_eq_refl_iff: "double_eq a a = (\<not> is_nan a)"
  by (cases a) auto

lemma double_lt_not_eq: "double_lt a b \<Longrightarrow> \<not> double_eq a b"
  by (cases a; cases b) auto

lemma double_lt_asym: "double_lt a b \<Longrightarrow> \<not> double_lt b a"
  by (cases a; cases b) auto

lemma double_lt_trans: "double_lt a b \<Longrightarrow> double_lt b c \<Longrightarrow> double_lt a c"
  by (cases a; cases b; cases c) auto

lemma double_lt_eq_trans: "double_lt a b \<Longrightarrow> double_eq b c \<Longrightarrow> double_lt a c"
  by (cases a; cases b; cases c) auto

lemma double_eq_lt_trans: "double_eq a b \<Longrightarrow> double_lt b c \<Longrightarrow> double_lt a c"
  by (cases a; cases b; cases c) auto

lemma double_trichotomy:
  "\<not> is_nan a \<Longrightarrow> \<not> is_nan b \<Longrightarrow> double_lt a b \<or> double_eq a b \<or> double_lt b a"
  by (cases a; cases b) auto

lemma double_cmp_less: "double_cmp a b = less \<longleftrightarrow> double_lt a b"
  by (auto simp: double_cmp_def double_lt_not_eq)

lemma double_cmp_equivalent: "double_cmp a b = equivalent \<longleftrightarrow> double_eq a b"
  by (auto simp: double_cmp_def)

lemma double_cmp_greater: "double_cmp a b = greater \<longleftrightarrow> double_lt b a"
  using double_lt_not_eq[of b a] double_lt_asym[of a b]
  by (auto simp: double_cmp_def double_eq_sym)

lemma double_cmp_unordered: "double_cmp a b = unordered \<longleftrightarrow> is_nan a \<or> is_nan b"
  using double_trichotomy[of a b]
  by (cases a; cases b) (auto simp: double_cmp_def)

section \<open>The comparison operators of \<open>Vec2\<close>\<close>

lemma Vec2_lt_iff:
  "Vec2_lt a b \<longleftrightarrow>
     double_lt (x a) (x b) \<or> (double_eq (x a) (x b) \<and> double_lt (y a) (y b))"
  unfolding Vec2_lt_def Vec2_spaceship_def Let_def
  by (auto simp: double_cmp_less double_cmp_equivalent dest: double_lt_not_eq)

lemma Vec2_gt_iff:
  "Vec2_gt a b \<longleftrightarrow>
     double_gt (x a) (x b) \<or> (double_eq (x a) (x b) \<and> double_gt (y a) (y b))"
  unfolding Vec2_gt_def Vec2_spaceship_def Let_def double_gt_def
  by (auto simp: double_cmp_greater double_cmp_equivalent double_eq_sym
           dest: double_lt_not_eq)

lemma Vec2_spaceship_equivalent: "Vec2_spaceship a b = equivalent \<longleftrightarrow> Vec2_eq a b"
  unfolding Vec2_eq_def Vec2_spaceship_def Let_def
  by (auto simp: double_cmp_equivalent)

lemma Vec2_le_iff:
  "Vec2_le a b \<longleftrightarrow>
     double_lt (x a) (x b) \<or>
     (double_eq (x a) (x b) \<and> (double_lt (y a) (y b) \<or> double_eq (y a) (y b)))"
  using Vec2_lt_iff[of a b] Vec2_spaceship_equivalent[of a b]
  unfolding Vec2_le_def Vec2_lt_def Vec2_eq_def by blast

lemma Vec2_ge_iff:
  "Vec2_ge a b \<longleftrightarrow>
     double_gt (x a) (x b) \<or>
     (double_eq (x a) (x b) \<and> (double_gt (y a) (y b) \<or> double_eq (y a) (y b)))"
  using Vec2_gt_iff[of a b] Vec2_spaceship_equivalent[of a b]
  unfolding Vec2_ge_def Vec2_gt_def Vec2_eq_def by blast

lemma Vec2_gt_conv: "Vec2_gt a b \<longleftrightarrow> Vec2_lt b a"
  unfolding Vec2_gt_iff Vec2_lt_iff double_gt_def by (auto simp: double_eq_sym)

lemma Vec2_eq_not_lt: "Vec2_eq a b \<Longrightarrow> \<not> Vec2_lt a b \<and> \<not> Vec2_lt b a"
  unfolding Vec2_lt_iff Vec2_eq_def
  by (auto simp: double_eq_sym dest: double_lt_not_eq)

lemma Vec2_lt_asym: "Vec2_lt a b \<Longrightarrow> \<not> Vec2_lt b a"
  unfolding Vec2_lt_iff
  by (auto simp: double_eq_sym dest: double_lt_not_eq double_lt_asym)

lemma Vec2_lt_trans: "Vec2_lt a b \<Longrightarrow> Vec2_lt b c \<Longrightarrow> Vec2_lt a c"
  unfolding Vec2_lt_iff
  by (meson double_lt_trans double_lt_eq_trans double_eq_lt_trans double_eq_trans)

lemma Vec2_trichotomy:
  "no_nan a \<Longrightarrow> no_nan b \<Longrightarrow> Vec2_lt a b \<or> Vec2_eq a b \<or> Vec2_lt b a"
  unfolding Vec2_lt_iff Vec2_eq_def no_nan_def
  using double_trichotomy[of "x a" "x b"] double_trichotomy[of "y a" "y b"]
  by (auto simp: double_eq_sym)

lemma Vec2_eq_refl_iff: "Vec2_eq a a \<longleftrightarrow> no_nan a"
  by (simp add: Vec2_eq_def no_nan_def double_eq_refl_iff)

lemma Vec2_eq_sym: "Vec2_eq a b \<Longrightarrow> Vec2_eq b a"
  by (simp add: Vec2_eq_def double_eq_sym)

lemma Vec2_eq_trans: "Vec2_eq a b \<Longrightarrow> Vec2_eq b c \<Longrightarrow> Vec2_eq a c"
  unfolding Vec2_eq_def by (meson double_eq_trans)


section \<open>The binary exponent\<close>


lemma floorlog2_bounds_ge1:
  assumes "1 \<le> q"
  shows "2 powi floorlog2 q \<le> q \<and> q < 2 powi (floorlog2 q + 1)"
proof -
  define n where "n = \<lfloor>q\<rfloor>"
  have n: "1 \<le> n" "of_int n \<le> q" "q < of_int n + 1"
    using assms by (auto simp: n_def)
  have b: "2 ^ nat (bitlen n - 1) \<le> n" "n < 2 ^ nat (bitlen n)"
    using bitlen_bounds[of n] n(1) by auto
  have k: "1 \<le> bitlen n"
    using n(1) by (smt (verit) bitlen_eq_zero_iff bitlen_nonneg)
  have fl: "floorlog2 q = bitlen n - 1"
    using assms by (simp add: floorlog2_def n_def)
  have "(2::real) powi (bitlen n - 1) = 2 ^ nat (bitlen n - 1)"
    using k by (simp add: power_int_def)
  also have "\<dots> = of_int (2 ^ nat (bitlen n - 1))" by simp
  also have "\<dots> \<le> of_int n" using b(1) by (simp only: of_int_le_iff)
  finally have lo: "2 powi (bitlen n - 1) \<le> q" using n(2) by linarith
  have "n + 1 \<le> 2 ^ nat (bitlen n)" using b(2) by simp
  then have "(of_int (n + 1) :: real) \<le> of_int (2 ^ nat (bitlen n))"
    by (simp only: of_int_le_iff)
  then have "q < 2 ^ nat (bitlen n)" using n(3) by simp
  also have "\<dots> = 2 powi (bitlen n)" using k by (simp add: power_int_def)
  finally show ?thesis using lo fl by simp
qed

lemma floorlog2_bounds_lt1:
  assumes "0 < q" "q < 1"
  shows "2 powi floorlog2 q \<le> q \<and> q < 2 powi (floorlog2 q + 1)"
proof -
  define m where "m = \<lceil>1 / q\<rceil> - 1"
  have r: "1 < 1 / q" using assms by simp
  have m: "1 \<le> m" "of_int m < 1 / q" "1 / q \<le> of_int m + 1"
    using r by (auto simp: m_def) linarith+
  have b: "2 ^ nat (bitlen m - 1) \<le> m" "m < 2 ^ nat (bitlen m)"
    using bitlen_bounds[of m] m(1) by auto
  have k: "1 \<le> bitlen m"
    using m(1) by (smt (verit) bitlen_eq_zero_iff bitlen_nonneg)
  have fl: "floorlog2 q = - bitlen m"
    using assms by (simp add: floorlog2_def m_def)
  have "m + 1 \<le> 2 ^ nat (bitlen m)" using b(2) by simp
  then have "(of_int (m + 1) :: real) \<le> of_int (2 ^ nat (bitlen m))"
    by (simp only: of_int_le_iff)
  then have "1 / q \<le> 2 ^ nat (bitlen m)" using m(3) by simp
  then have "1 / 2 ^ nat (bitlen m) \<le> q"
    using assms(1) by (simp add: field_simps)
  moreover have "(2::real) powi (- bitlen m) = 1 / 2 ^ nat (bitlen m)"
    using k by (simp add: power_int_def field_simps)
  ultimately have lo: "2 powi (- bitlen m) \<le> q" by simp
  have "(of_int (2 ^ nat (bitlen m - 1)) :: real) \<le> of_int m"
    using b(1) by (simp only: of_int_le_iff)
  then have "(2::real) ^ nat (bitlen m - 1) \<le> of_int m" by simp
  then have "2 ^ nat (bitlen m - 1) < 1 / q" using m(2) by linarith
  then have "q < 1 / 2 ^ nat (bitlen m - 1)"
    using assms(1) by (simp add: field_simps)
  moreover have "(2::real) powi (- bitlen m + 1) = 1 / 2 ^ nat (bitlen m - 1)"
  proof -
    have "- bitlen m + 1 = - (bitlen m - 1)" by simp
    then have "(2::real) powi (- bitlen m + 1) = 2 powi (- (bitlen m - 1))" by (simp only:)
    also have "\<dots> = 1 / 2 powi (bitlen m - 1)" by (rule power_int_minus_divide)
    also have "\<dots> = 1 / 2 ^ nat (bitlen m - 1)" using k by (simp add: power_int_def)
    finally show ?thesis .
  qed
  ultimately show ?thesis using lo fl by simp
qed

lemma floorlog2_bounds:
  assumes "0 < q"
  shows "2 powi floorlog2 q \<le> q" and "q < 2 powi (floorlog2 q + 1)"
  using floorlog2_bounds_ge1[of q] floorlog2_bounds_lt1[of q] assms
  by (cases "1 \<le> q"; simp)+

lemma powi2_less_imp: "(2::real) powi a < 2 powi b \<Longrightarrow> a < b"
  using power_int_increasing[of b a "2::real"] by (cases "a < b") auto

lemma floorlog2_unique:
  assumes "2 powi e \<le> q" "q < 2 powi (e + 1)"
  shows "floorlog2 q = e"
proof -
  have q: "0 < q" using assms(1) by (smt (verit) zero_less_power_int)
  note b = floorlog2_bounds[OF q]
  have "(2::real) powi e < 2 powi (floorlog2 q + 1)" using assms(1) b(2) by linarith
  then have 1: "e < floorlog2 q + 1" by (rule powi2_less_imp)
  have "(2::real) powi floorlog2 q < 2 powi (e + 1)" using assms(2) b(1) by linarith
  then have 2: "floorlog2 q < e + 1" by (rule powi2_less_imp)
  show ?thesis using 1 2 by simp
qed


section \<open>Rounding to the nearest integer, ties to even\<close>


lemma round_half_even_of_int [simp]: "round_half_even (of_int n) = n"
  by (simp add: round_half_even_def)

lemma round_half_even_bounds:
  "\<lfloor>r\<rfloor> \<le> round_half_even r" "round_half_even r \<le> \<lfloor>r\<rfloor> + 1"
  by (simp_all add: round_half_even_def Let_def)

lemma round_half_even_error: "\<bar>of_int (round_half_even r) - r\<bar> \<le> 1 / 2"
  unfolding round_half_even_def Let_def
  by (auto simp: abs_if) linarith+

lemma round_half_even_ge: "of_int n \<le> r \<Longrightarrow> n \<le> round_half_even r"
  using round_half_even_bounds(1)[of r] le_floor_iff[of n r] by linarith

lemma round_half_even_le: "r \<le> of_int n \<Longrightarrow> round_half_even r \<le> n"
proof -
  assume a: "r \<le> of_int n"
  show ?thesis
  proof (cases "r = of_int n")
    case True then show ?thesis by simp
  next
    case False
    then have "r < of_int n" using a by simp
    then have "\<lfloor>r\<rfloor> < n" by (simp add: floor_less_iff)
    then show ?thesis using round_half_even_bounds(2)[of r] by linarith
  qed
qed

lemma round_half_even_eq_0_iff:
  assumes "0 \<le> r"
  shows "round_half_even r = 0 \<longleftrightarrow> r \<le> 1 / 2"
proof
  assume "round_half_even r = 0"
  then show "r \<le> 1 / 2" using round_half_even_error[of r] by simp
next
  assume h: "r \<le> 1 / 2"
  then have f: "\<lfloor>r\<rfloor> = 0" using assms by (simp add: floor_eq_iff)
  show "round_half_even r = 0"
    using h by (simp add: round_half_even_def f)
qed


section \<open>Rounding of magnitudes\<close>


lemma ulp_exp_ge: "- 1074 \<le> ulp_exp q" "floorlog2 q - 52 \<le> ulp_exp q"
  by (simp_all add: ulp_exp_def)

lemma ulp_pos: "0 < (2::real) powi ulp_exp q"
  by simp

lemma round_mag_zero [simp]: "round_mag 0 = 0"
  by (simp add: round_mag_def)

lemma round_mag_nonneg: "0 \<le> round_mag q"
proof (cases "q \<le> 0")
  case True then show ?thesis by (simp add: round_mag_def)
next
  case False
  then have "0 \<le> q / 2 powi ulp_exp q" by simp
  then have "of_int 0 \<le> q / 2 powi ulp_exp q" by simp
  then have "0 \<le> round_half_even (q / 2 powi ulp_exp q)"
    by (rule round_half_even_ge)
  then show ?thesis using False by (simp add: round_mag_def)
qed

lemma is_mag_nonneg: "is_mag q \<Longrightarrow> 0 \<le> q"
  by (auto simp: is_mag_def)

lemma is_mag_less: "is_mag q \<Longrightarrow> q < 2 ^ 1024"
  by (auto simp: is_mag_def)

lemma round_mag_id: "is_mag q \<Longrightarrow> round_mag q = q"
proof -
  assume m: "is_mag q"
  show ?thesis
  proof (cases "q = 0")
    case True then show ?thesis by simp
  next
    case False
    then have q: "0 < q" and i: "of_int \<lfloor>q / 2 powi ulp_exp q\<rfloor> = q / 2 powi ulp_exp q"
      using m by (auto simp: is_mag_def)
    have "round_half_even (q / 2 powi ulp_exp q) = \<lfloor>q / 2 powi ulp_exp q\<rfloor>"
      using round_half_even_of_int[of "\<lfloor>q / 2 powi ulp_exp q\<rfloor>"] i by simp
    then have "round_mag q = of_int \<lfloor>q / 2 powi ulp_exp q\<rfloor> * 2 powi ulp_exp q"
      using q by (simp add: round_mag_def)
    also have "\<dots> = q / 2 powi ulp_exp q * 2 powi ulp_exp q" by (simp only: i)
    also have "\<dots> = q" by simp
    finally show ?thesis .
  qed
qed

lemma round_double_id: "is_mag q \<Longrightarrow> round_double s q = Fin s q"
  using is_mag_less[of q] by (simp add: round_double_def round_mag_id)

lemma round_mag_error:
  assumes "0 < q"
  shows "\<bar>round_mag q - q\<bar> \<le> 2 powi ulp_exp q / 2"
proof -
  let ?U = "(2::real) powi ulp_exp q"
  have U: "0 < ?U" by simp
  have "\<bar>of_int (round_half_even (q / ?U)) - q / ?U\<bar> \<le> 1 / 2"
    by (rule round_half_even_error)
  then have "\<bar>of_int (round_half_even (q / ?U)) - q / ?U\<bar> * ?U \<le> 1 / 2 * ?U"
    using U by (intro mult_right_mono) auto
  moreover have "\<bar>of_int (round_half_even (q / ?U)) - q / ?U\<bar> * ?U
      = \<bar>of_int (round_half_even (q / ?U)) * ?U - q\<bar>"
  proof -
    have "\<bar>of_int (round_half_even (q / ?U)) - q / ?U\<bar> * ?U
        = \<bar>(of_int (round_half_even (q / ?U)) - q / ?U) * ?U\<bar>"
      using U by (simp add: abs_mult)
    also have "(of_int (round_half_even (q / ?U)) - q / ?U) * ?U
        = of_int (round_half_even (q / ?U)) * ?U - q"
      using U by (simp add: field_simps)
    finally show ?thesis .
  qed
  ultimately show ?thesis using assms by (simp add: round_mag_def)
qed

lemma round_mag_eq_0_iff:
  assumes "0 \<le> q"
  shows "round_mag q = 0 \<longleftrightarrow> q \<le> 2 powi (- 1075)"
proof (cases "q = 0")
  case True then show ?thesis by simp
next
  case False
  then have q: "0 < q" using assms by simp
  let ?U = "(2::real) powi ulp_exp q"
  have U: "0 < ?U" by simp
  have "round_mag q = 0 \<longleftrightarrow> round_half_even (q / ?U) = 0"
    using q by (simp add: round_mag_def)
  also have "\<dots> \<longleftrightarrow> q / ?U \<le> 1 / 2"
    using q by (intro round_half_even_eq_0_iff) simp
  also have "\<dots> \<longleftrightarrow> q \<le> ?U / 2"
    using U by (simp add: field_simps)
  also have "\<dots> \<longleftrightarrow> q \<le> 2 powi (- 1075)"
  proof (cases "floorlog2 q - 52 \<le> - 1074")
    case True
    then have "ulp_exp q = - 1074" by (simp add: ulp_exp_def)
    moreover have "(2::real) powi (- 1074) / 2 = 2 powi (- 1075)"
      using power_int_add[of "2::real" "- 1075" 1] by simp
    ultimately show ?thesis by simp
  next
    case False
    then have u: "ulp_exp q = floorlog2 q - 52" by (simp add: ulp_exp_def)
    have lo: "2 powi floorlog2 q \<le> q" using floorlog2_bounds(1)[OF q] .
    have "(2::real) powi (floorlog2 q - 52) < 2 powi floorlog2 q"
      by (intro power_int_strict_increasing) auto
    then have "?U < q" using lo u by simp
    then have a: "\<not> q \<le> ?U / 2" using q by linarith
    have "(2::real) powi (- 1075) < 2 powi floorlog2 q"
      using False by (intro power_int_strict_increasing) auto
    then have b: "\<not> q \<le> 2 powi (- 1075)" using lo by simp
    show ?thesis using a b by simp
  qed
  finally show ?thesis .
qed


section \<open>Binades, overflow, underflow, and laws of the arithmetic\<close>


lemma round_mag_binade:
  assumes q: "0 < q" and e: "- 1022 \<le> floorlog2 q"
  shows "2 powi floorlog2 q \<le> round_mag q" and "round_mag q \<le> 2 powi (floorlog2 q + 1)"
proof -
  let ?e = "floorlog2 q"
  let ?U = "(2::real) powi (?e - 52)"
  have u: "ulp_exp q = ?e - 52" using e by (simp add: ulp_exp_def)
  have U: "0 < ?U" by simp
  have "(2::real) powi ?e = 2 powi (52 + (?e - 52))"
    by (rule arg_cong[where f = "\<lambda>n. 2 powi n"]) simp
  also have "\<dots> = 2 powi 52 * ?U" by (rule power_int_add) simp
  finally have p52: "(2::real) powi ?e = 2 ^ 52 * ?U" by simp
  have "(2::real) powi (?e + 1) = 2 powi (53 + (?e - 52))"
    by (rule arg_cong[where f = "\<lambda>n. 2 powi n"]) simp
  also have "\<dots> = 2 powi 53 * ?U" by (rule power_int_add) simp
  finally have p53: "(2::real) powi (?e + 1) = 2 ^ 53 * ?U" by simp
  have "2 ^ 52 * ?U \<le> q" using floorlog2_bounds(1)[OF q] p52 by simp
  then have "2 ^ 52 \<le> q / ?U" using U by (simp add: field_simps)
  then have "of_int (2 ^ 52) \<le> q / ?U" by simp
  then have "2 ^ 52 \<le> round_half_even (q / ?U)" by (rule round_half_even_ge)
  then have "(of_int (2 ^ 52) :: real) \<le> of_int (round_half_even (q / ?U))"
    by (simp only: of_int_le_iff)
  then have "of_int (2 ^ 52) * ?U \<le> of_int (round_half_even (q / ?U)) * ?U"
    using U by (intro mult_right_mono) auto
  then show "2 powi ?e \<le> round_mag q"
    using q u p52 by (simp add: round_mag_def)
  have "q < 2 ^ 53 * ?U" using floorlog2_bounds(2)[OF q] p53 by simp
  then have "q / ?U \<le> 2 ^ 53" using U by (simp add: field_simps)
  then have "q / ?U \<le> of_int (2 ^ 53)" by simp
  then have "round_half_even (q / ?U) \<le> 2 ^ 53" by (rule round_half_even_le)
  then have "(of_int (round_half_even (q / ?U)) :: real) \<le> of_int (2 ^ 53)"
    by (simp only: of_int_le_iff)
  then have "of_int (round_half_even (q / ?U)) * ?U \<le> of_int (2 ^ 53) * ?U"
    using U by (intro mult_right_mono) auto
  then show "round_mag q \<le> 2 powi (?e + 1)"
    using q u p53 by (simp add: round_mag_def)
qed

lemma floorlog2_ge:
  assumes "2 powi e \<le> q"
  shows "e \<le> floorlog2 q"
proof -
  have q: "0 < q" using assms by (smt (verit) zero_less_power_int)
  have "(2::real) powi e < 2 powi (floorlog2 q + 1)"
    using assms floorlog2_bounds(2)[OF q] by linarith
  then have "e < floorlog2 q + 1" by (rule powi2_less_imp)
  then show ?thesis by simp
qed

lemma floorlog2_less:
  assumes "0 < q" "q < 2 powi e"
  shows "floorlog2 q < e"
proof -
  have "(2::real) powi floorlog2 q < 2 powi e"
    using assms floorlog2_bounds(1)[OF assms(1)] by linarith
  then show ?thesis by (rule powi2_less_imp)
qed

lemma round_double_overflow:
  assumes "2 ^ 1024 \<le> q"
  shows "round_double s q = Inf s"
proof -
  have q: "0 < q" using assms by (smt (verit) zero_less_power)
  have "(2::real) powi 1024 \<le> q" using assms by simp
  then have e: "1024 \<le> floorlog2 q" by (rule floorlog2_ge)
  then have "(2::real) powi 1024 \<le> 2 powi floorlog2 q"
    by (intro power_int_increasing) auto
  also have "\<dots> \<le> round_mag q" using e by (intro round_mag_binade(1)[OF q]) simp
  finally show ?thesis by (simp add: round_double_def)
qed

lemma round_double_underflow:
  assumes "0 \<le> q" "q \<le> 2 powi (- 1075)"
  shows "round_double s q = Fin s 0"
  using assms round_mag_eq_0_iff[of q] by (simp add: round_double_def)

lemma round_double_zero [simp]: "round_double s 0 = Fin s 0"
  by (simp add: round_double_def)

lemma double_neg_round_double: "double_neg (round_double s q) = round_double (\<not> s) q"
  by (simp add: round_double_def Let_def)

lemma double_neg_neg [simp]: "double_neg (double_neg a) = a"
  by (cases a) auto

lemma double_add_commute: "double_add a b = double_add b a"
  by (cases a; cases b) (auto simp: Let_def add.commute)

lemma double_mul_commute: "double_mul a b = double_mul b a"
  by (cases a; cases b) (auto simp: mult.commute intro!: arg_cong2[where f = round_double])

lemma double_mul_neg_left: "double_mul (double_neg a) b = double_neg (double_mul a b)"
  by (cases a; cases b) (auto simp: double_neg_round_double)

lemma double_mul_neg_right: "double_mul a (double_neg b) = double_neg (double_mul a b)"
  by (cases a; cases b) (auto simp: double_neg_round_double)

lemma double_mul_neg_neg: "double_mul (double_neg a) (double_neg b) = double_mul a b"
  by (simp add: double_mul_neg_left double_mul_neg_right)

lemma sval_not: "sval (\<not> t) q = - sval t q"
  by (simp add: sval_def)

lemma double_sub_Fin:
  "double_sub (Fin s p) (Fin t q) =
     (if sval s p - sval t q = 0 then Fin (s \<and> \<not> t) 0
      else round_double (sval s p - sval t q < 0) \<bar>sval s p - sval t q\<bar>)"
  by (simp add: double_sub_def Let_def sval_not)

lemma double_mul_zero_zero: "double_mul (Fin s 0) (Fin s 0) = Fin False 0"
  by simp

lemma double_sub_square_rev:
  "double_mul (double_sub a b) (double_sub a b) = double_mul (double_sub b a) (double_sub b a)"
proof (cases a)
  case NaN then show ?thesis by (cases b) (simp_all add: double_sub_def)
next
  case (Inf s) then show ?thesis by (cases b) (auto simp: double_sub_def)
next
  case a: (Fin s p)
  show ?thesis
  proof (cases b)
    case NaN then show ?thesis using a by (simp add: double_sub_def)
  next
    case (Inf t) then show ?thesis using a by (simp add: double_sub_def)
  next
    case b: (Fin t q)
    let ?v = "sval s p - sval t q"
    show ?thesis
    proof (cases "?v = 0")
      case True
      then have "sval t q - sval s p = 0" by simp
      then show ?thesis using True a b by (simp add: double_sub_Fin)
    next
      case False
      then have nz: "sval t q - sval s p \<noteq> 0" by simp
      have sg: "(sval t q - sval s p < 0) = (\<not> ?v < 0)" using False by auto
      have ab: "\<bar>sval t q - sval s p\<bar> = \<bar>?v\<bar>" by simp
      have "double_sub b a = round_double (\<not> ?v < 0) \<bar>?v\<bar>"
        unfolding a b double_sub_Fin using nz sg ab by (simp only: if_False)
      moreover have "double_sub a b = round_double (?v < 0) \<bar>?v\<bar>"
        unfolding a b double_sub_Fin using False by (simp only: if_False)
      ultimately have "double_sub b a = double_neg (double_sub a b)"
        by (simp add: double_neg_round_double)
      then show ?thesis by (simp add: double_mul_neg_neg)
    qed
  qed
qed


section \<open>Powers of two, and evaluation at literals\<close>


lemmas round_eval =
  round_double_def round_mag_def ulp_exp_def floorlog2_def compute_bitlen
  round_half_even_def Let_def sval_def

lemma floorlog2_powi [simp]: "floorlog2 (2 powi e) = e"
  by (rule floorlog2_unique) (auto intro!: power_int_strict_increasing)

lemma is_mag_powi:
  assumes "- 1074 \<le> e" "e \<le> 1023"
  shows "is_mag (2 powi e)"
proof -
  let ?u = "max (e - 52) (- 1074)"
  have u: "ulp_exp (2 powi e) = ?u" by (simp add: ulp_exp_def)
  have d: "0 \<le> e - ?u" using assms by simp
  have "(2::real) powi e / 2 powi ?u = 2 powi (e - ?u)"
    by (simp add: power_int_diff)
  also have "\<dots> = (of_int (2 ^ nat (e - ?u)) :: real)"
    using d by (simp add: power_int_def)
  finally have i: "(2::real) powi e / 2 powi ?u = of_int (2 ^ nat (e - ?u))" .
  have "(2::real) powi e < 2 powi 1024"
    using assms by (intro power_int_strict_increasing) auto
  then have lt: "(2::real) powi e < 2 ^ 1024" by simp
  have "of_int \<lfloor>(2::real) powi e / 2 powi ?u\<rfloor> = (2::real) powi e / 2 powi ?u"
    unfolding i by (simp only: floor_of_int)
  then show ?thesis using lt by (simp add: is_mag_def u)
qed


section \<open>The operations return binary64 values\<close>


lemma powi_shift: "(2::real) powi (u + int k) = 2 ^ k * 2 powi u"
  using power_int_add[of "2::real" "int k" u] by (simp add: add.commute)

lemma powi_split: "k = u + int j \<Longrightarrow> (2::real) powi k = 2 ^ j * 2 powi u"
  using powi_shift[of u j] by simp

lemma is_mag_intI:
  assumes n0: "0 \<le> n" and n53: "n \<le> 2 ^ 53" and u: "- 1074 \<le> u"
    and norm: "u = - 1074 \<or> 2 ^ 52 \<le> n"
    and lt: "of_int n * 2 powi u < (2::real) ^ 1024"
  shows "is_mag (of_int n * 2 powi u)"
proof (cases "n = 0")
  case True then show ?thesis by (simp add: is_mag_def)
next
  case False
  let ?q = "of_int n * (2::real) powi u"
  have npos: "0 < n" using False n0 by simp
  have q: "0 < ?q" using npos by simp
  have p52: "(2::real) powi (u + 52) = 2 ^ 52 * 2 powi u" by (rule powi_split) simp
  have p53: "(2::real) powi (u + 53) = 2 ^ 53 * 2 powi u" by (rule powi_split) simp
  have p53': "(2::real) powi (u + 52 + 1) = 2 ^ 53 * 2 powi u" by (rule powi_split) simp
  have p1: "(2::real) powi (u + 1) = 2 ^ 1 * 2 powi u" by (rule powi_split) simp
  consider (top) "n = 2 ^ 53" | (normal) "2 ^ 52 \<le> n" "n < 2 ^ 53" | (sub) "n < 2 ^ 52"
    using n53 by linarith
  then show ?thesis
  proof cases
    case top
    then have e: "?q = 2 powi (u + 53)" using p53 by simp
    have "floorlog2 ?q = u + 53" unfolding e by (rule floorlog2_powi)
    then have ue: "ulp_exp ?q = u + 1" using u by (simp add: ulp_exp_def)
    have "?q / 2 powi (u + 1) = of_int (2 ^ 52)" using top p1 by simp
    then have "of_int \<lfloor>?q / 2 powi (u + 1)\<rfloor> = ?q / 2 powi (u + 1)"
      by (simp only: floor_of_int)
    then show ?thesis using q lt ue by (simp add: is_mag_def)
  next
    case normal
    have "(of_int (2 ^ 52) :: real) \<le> of_int n" using normal(1) by (simp only: of_int_le_iff)
    then have "2 ^ 52 * 2 powi u \<le> ?q" by (intro mult_right_mono) auto
    then have lo: "2 powi (u + 52) \<le> ?q" using p52 by simp
    have "(of_int n :: real) < of_int (2 ^ 53)" using normal(2) by (simp only: of_int_less_iff)
    then have "?q < 2 ^ 53 * 2 powi u" by (intro mult_strict_right_mono) auto
    then have hi: "?q < 2 powi (u + 52 + 1)" by (simp only: p53')
    have "floorlog2 ?q = u + 52" using lo hi by (rule floorlog2_unique)
    then have ue: "ulp_exp ?q = u" using u by (simp add: ulp_exp_def)
    have "?q / 2 powi u = of_int n" by simp
    then have "of_int \<lfloor>?q / 2 powi u\<rfloor> = ?q / 2 powi u"
      by (simp only: floor_of_int)
    then show ?thesis using q lt ue by (simp add: is_mag_def)
  next
    case sub
    then have u': "u = - 1074" using norm by simp
    have "(of_int n :: real) < of_int (2 ^ 52)" using sub by (simp only: of_int_less_iff)
    then have "?q < 2 ^ 52 * 2 powi u" by (intro mult_strict_right_mono) auto
    then have "?q < 2 powi (u + 52)" using p52 by simp
    then have "floorlog2 ?q < u + 52" using q by (intro floorlog2_less)
    then have ue: "ulp_exp ?q = u" using u' by (simp add: ulp_exp_def)
    have "?q / 2 powi u = of_int n" by simp
    then have "of_int \<lfloor>?q / 2 powi u\<rfloor> = ?q / 2 powi u"
      by (simp only: floor_of_int)
    then show ?thesis using q lt ue by (simp add: is_mag_def)
  qed
qed

lemma round_count_bounds:
  assumes q: "0 < q"
  defines "n \<equiv> round_half_even (q / 2 powi ulp_exp q)"
  shows "0 \<le> n" and "n \<le> 2 ^ 53" and "ulp_exp q = - 1074 \<or> 2 ^ 52 \<le> n"
proof -
  let ?e = "floorlog2 q"
  let ?U = "(2::real) powi ulp_exp q"
  have U: "0 < ?U" by simp
  have "of_int 0 \<le> q / ?U" using q by simp
  then show "0 \<le> n" unfolding n_def by (rule round_half_even_ge)
  have p53: "(2::real) powi (?e + 1) = 2 ^ 53 * 2 powi (?e - 52)"
    by (rule powi_split) simp
  have p52: "(2::real) powi ?e = 2 ^ 52 * 2 powi (?e - 52)"
    by (rule powi_split) simp
  have "(2::real) powi (?e - 52) \<le> ?U"
    by (intro power_int_increasing) (simp_all add: ulp_exp_def)
  then have "2 ^ 53 * 2 powi (?e - 52) \<le> 2 ^ 53 * ?U" by simp
  then have "q \<le> 2 ^ 53 * ?U" using floorlog2_bounds(2)[OF q] p53 by linarith
  then have "q / ?U \<le> of_int (2 ^ 53)" using U by (simp add: field_simps)
  then show "n \<le> 2 ^ 53" unfolding n_def by (rule round_half_even_le)
  show "ulp_exp q = - 1074 \<or> 2 ^ 52 \<le> n"
  proof (cases "ulp_exp q = - 1074")
    case True then show ?thesis by simp
  next
    case False
    then have ue: "ulp_exp q = ?e - 52" by (simp add: ulp_exp_def max_def split: if_splits)
    have "2 ^ 52 * ?U \<le> q" using floorlog2_bounds(1)[OF q] p52 ue by simp
    then have "of_int (2 ^ 52) \<le> q / ?U" using U by (simp add: field_simps)
    then have "2 ^ 52 \<le> n" unfolding n_def by (rule round_half_even_ge)
    then show ?thesis by simp
  qed
qed

lemma round_mag_is_mag:
  assumes "round_mag q < 2 ^ 1024"
  shows "is_mag (round_mag q)"
proof (cases "q \<le> 0")
  case True then show ?thesis by (simp add: round_mag_def is_mag_def)
next
  case False
  then have q: "0 < q" by simp
  have r: "round_mag q = of_int (round_half_even (q / 2 powi ulp_exp q)) * 2 powi ulp_exp q"
    using q by (simp add: round_mag_def)
  show ?thesis
    unfolding r
    using round_count_bounds[OF q] ulp_exp_ge(1)[of q] assms[unfolded r]
    by (intro is_mag_intI) auto
qed

lemma is_double_round_double [simp]: "is_double (round_double s q)"
  using round_mag_is_mag[of q] by (simp add: round_double_def Let_def)

lemma is_mag_zero [simp]: "is_mag 0"
  by (simp add: is_mag_def)

lemma is_double_add [simp]: "is_double (double_add a b)"
  by (cases a; cases b) (auto simp: Let_def)

lemma is_double_neg [simp]: "is_double (double_neg a) = is_double a"
  by (cases a) auto

lemma is_double_sub [simp]: "is_double (double_sub a b)"
  by (simp add: double_sub_def)

lemma is_double_mul [simp]: "is_double (double_mul a b)"
  by (cases a; cases b) auto

lemma is_double_div [simp]: "is_double (double_div a b)"
  by (cases a; cases b) auto


section \<open>Exact operations: multiplying by one, adding zero, exact differences\<close>


lemma double_mul_one:
  assumes "is_double d"
  shows "double_mul d d_one = d"
proof (cases d)
  case (Fin s r)
  then have "is_mag r" using assms by simp
  then show ?thesis using Fin by (simp add: d_one_def round_double_id)
qed (simp_all add: d_one_def)

lemma double_add_zero_eq:
  assumes a: "is_double a" "is_finite a"
  shows "double_eq (double_add a (Fin s 0)) a"
proof -
  obtain t p where fa: "a = Fin t p" using a(2) by (cases a) auto
  have m: "is_mag p" using a(1) fa by simp
  have p: "0 \<le> p" using m by (rule is_mag_nonneg)
  show ?thesis
  proof (cases "p = 0")
    case True then show ?thesis by (simp add: fa sval_def)
  next
    case False
    then have pos: "0 < p" using p by simp
    have v: "sval t p + sval s 0 = sval t p" by (simp add: sval_def)
    have nz: "sval t p \<noteq> 0" using pos by (simp add: sval_def)
    have sg: "(sval t p < 0) = t" using pos by (simp add: sval_def)
    have ab: "\<bar>sval t p\<bar> = p" using pos by (simp add: sval_def)
    have "double_add a (Fin s 0) = round_double t p"
      by (simp add: fa v nz sg ab Let_def)
    also have "\<dots> = Fin t p" using m by (rule round_double_id)
    finally show ?thesis by (simp add: fa)
  qed
qed

lemma lerp_component_zero:
  assumes "is_double a" "is_finite a" "is_finite d"
  shows "double_eq (double_add a (double_mul d d_zero)) a"
proof -
  obtain s r where d: "d = Fin s r" using assms(3) by (cases d) auto
  have "double_mul d d_zero = Fin s 0" by (simp add: d d_zero_def)
  then show ?thesis using assms double_add_zero_eq[of a s] by simp
qed

lemma lerp_component_one:
  assumes a: "is_double a" "is_finite a" and b: "is_double b" "is_finite b"
    and ex: "exact_sub b a"
  shows "double_eq (double_add a (double_mul (double_sub b a) d_one)) b"
proof -
  obtain s p where fa: "a = Fin s p" using a(2) by (cases a) auto
  obtain t q where fb: "b = Fin t q" using b(2) by (cases b) auto
  have mq: "is_mag q" using b(1) fb by simp
  have q: "0 \<le> q" using mq by (rule is_mag_nonneg)
  obtain u r where fd: "double_sub b a = Fin u r"
    using ex by (cases "double_sub b a") (auto simp: exact_sub_def)
  have vd: "sval u r = sval t q - sval s p"
    using ex unfolding exact_sub_def fd by (simp add: fa fb)
  have "is_double (double_sub b a)" by simp
  then have "double_mul (double_sub b a) d_one = double_sub b a" by (rule double_mul_one)
  then have m1: "double_mul (double_sub b a) d_one = Fin u r" by (simp only: fd)
  have sum: "sval s p + sval u r = sval t q" using vd by simp
  have step: "double_add a (double_mul (double_sub b a) d_one) = double_add (Fin s p) (Fin u r)"
    unfolding m1 by (simp only: fa)
  show ?thesis
  proof (cases "q = 0")
    case True
    then have "sval s p + sval u r = 0" using sum by (simp add: sval_def)
    then have "double_add (Fin s p) (Fin u r) = Fin (s \<and> u) 0" by (simp add: Let_def)
    then have res: "double_add a (double_mul (double_sub b a) d_one) = Fin (s \<and> u) 0"
      by (simp only: step)
    have "double_eq (Fin (s \<and> u) 0) b" using True by (simp add: fb sval_def)
    then show ?thesis by (simp only: res)
  next
    case False
    then have pos: "0 < q" using q by simp
    have nz: "sval t q \<noteq> 0" using pos by (simp add: sval_def)
    have sg: "(sval t q < 0) = t" using pos by (simp add: sval_def)
    have ab: "\<bar>sval t q\<bar> = q" using pos by (simp add: sval_def)
    have "double_add (Fin s p) (Fin u r) = round_double t q"
      by (simp add: sum nz sg ab Let_def)
    also have "\<dots> = Fin t q" using mq by (rule round_double_id)
    finally have res: "double_add a (double_mul (double_sub b a) d_one) = Fin t q"
      by (simp only: step)
    have "double_eq (Fin t q) b" by (simp add: fb)
    then show ?thesis by (simp only: res)
  qed
qed

lemma exact_sub_zero:
  assumes "is_double b" "is_finite b"
  shows "exact_sub b d_zero"
proof -
  obtain t q where fb: "b = Fin t q" using assms(2) by (cases b) auto
  have mq: "is_mag q" using assms(1) fb by simp
  have q: "0 \<le> q" using mq by (rule is_mag_nonneg)
  show ?thesis
  proof (cases "q = 0")
    case True
    then show ?thesis by (simp add: exact_sub_def fb d_zero_def double_sub_Fin sval_def)
  next
    case False
    then have pos: "0 < q" using q by simp
    have "double_sub b d_zero = round_double t q"
      using pos by (simp add: fb d_zero_def double_sub_Fin sval_def)
    then have "double_sub b d_zero = Fin t q" using mq by (simp add: round_double_id)
    then show ?thesis by (simp add: exact_sub_def fb d_zero_def sval_def)
  qed
qed


section \<open>The integer square root and the rounded square root\<close>


lemma isqrt_correct:
  "isqrt n * isqrt n \<le> n \<and> n < (isqrt n + 1) * (isqrt n + 1)"
proof (induction n rule: isqrt.induct)
  case (1 n)
  show ?case
  proof (cases "n < 2")
    case True
    then have "isqrt n = n" by (subst isqrt.simps) simp
    moreover have "n = 0 \<or> n = 1" using True by auto
    ultimately show ?thesis by auto
  next
    case False
    define s where "s = isqrt (n div 4)"
    have ih: "s * s \<le> n div 4" "n div 4 < (s + 1) * (s + 1)"
      using 1[OF False] by (simp_all add: s_def)
    have lo: "(2 * s) * (2 * s) \<le> n"
    proof -
      have "(2 * s) * (2 * s) = 4 * (s * s)" by simp
      also have "\<dots> \<le> 4 * (n div 4)" using ih(1) by simp
      also have "\<dots> \<le> n" by simp
      finally show ?thesis .
    qed
    have hi: "n < (2 * s + 2) * (2 * s + 2)"
    proof -
      have "n div 4 + 1 \<le> (s + 1) * (s + 1)" using ih(2) by simp
      then have "4 * (n div 4 + 1) \<le> 4 * ((s + 1) * (s + 1))" by simp
      moreover have "n < 4 * (n div 4 + 1)" by simp
      moreover have "4 * ((s + 1) * (s + 1)) = (2 * s + 2) * (2 * s + 2)" by (simp add: algebra_simps)
      ultimately show ?thesis by linarith
    qed
    have e: "isqrt n = (if (2 * s + 1) * (2 * s + 1) \<le> n then 2 * s + 1 else 2 * s)"
      using False by (subst isqrt.simps) (simp add: s_def Let_def)
    show ?thesis
    proof (cases "(2 * s + 1) * (2 * s + 1) \<le> n")
      case True
      then have "isqrt n = 2 * s + 1" using e by simp
      then show ?thesis using True hi by (simp add: algebra_simps)
    next
      case False
      then have "isqrt n = 2 * s" using e by simp
      then show ?thesis using False lo by simp
    qed
  qed
qed

lemma isqrt_pos: "0 < n \<Longrightarrow> 0 < isqrt n"
  using isqrt_correct[of n] by (cases "isqrt n = 0") auto

lemma round_mag_ge_min:
  assumes "round_mag q \<noteq> 0"
  shows "2 powi (- 1074) \<le> round_mag q"
proof -
  have q: "0 < q" using assms by (cases "q \<le> 0") (auto simp: round_mag_def)
  let ?n = "round_half_even (q / 2 powi ulp_exp q)"
  have r: "round_mag q = of_int ?n * 2 powi ulp_exp q" using q by (simp add: round_mag_def)
  have "0 \<le> ?n" using round_count_bounds(1)[OF q] .
  moreover have "?n \<noteq> 0" using assms r by auto
  ultimately have "1 \<le> ?n" by simp
  then have "(of_int 1 :: real) \<le> of_int ?n" by (simp only: of_int_le_iff)
  then have "1 * 2 powi ulp_exp q \<le> of_int ?n * (2::real) powi ulp_exp q"
    by (intro mult_right_mono) auto
  moreover have "(2::real) powi (- 1074) \<le> 2 powi ulp_exp q"
    by (intro power_int_increasing) (simp_all add: ulp_exp_def)
  ultimately show ?thesis unfolding r by linarith
qed

lemma sqrt_mag_pos:
  assumes q: "0 < q"
  shows "0 < sqrt_mag q"
proof -
  define e where "e = floorlog2 q div 2 - 52"
  define t where "t = q / 2 powi (2 * e)"
  define n where "n = int (isqrt (nat \<lfloor>t\<rfloor>))"
  define m where "m = (if t < (of_int n + 1 / 2) ^ 2 then n
      else if (of_int n + 1 / 2) ^ 2 < t then n + 1 else if even n then n else n + 1)"
  have s: "sqrt_mag q = of_int m * 2 powi e"
    using q by (simp add: sqrt_mag_def Let_def e_def t_def n_def m_def)
  have "2 * e \<le> floorlog2 q" unfolding e_def by presburger
  then have "(2::real) powi (2 * e) \<le> 2 powi floorlog2 q"
    by (intro power_int_increasing) auto
  then have "(2::real) powi (2 * e) \<le> q" using floorlog2_bounds(1)[OF q] by linarith
  then have "1 \<le> t" unfolding t_def by (simp add: field_simps)
  then have "1 \<le> \<lfloor>t\<rfloor>" by simp
  then have "0 < nat \<lfloor>t\<rfloor>" by simp
  then have "0 < n" unfolding n_def using isqrt_pos by simp
  moreover have "n \<le> m" unfolding m_def by simp
  ultimately have "0 < m" by simp
  then show ?thesis unfolding s by simp
qed


section \<open>Distances\<close>


lemma length_sq_minus_rev: "length_sq (Vec2_minus a b) = length_sq (Vec2_minus b a)"
  by (simp add: length_sq_def Vec2_minus_def double_sub_square_rev[of "x a" "x b"]
      double_sub_square_rev[of "y a" "y b"])

lemma distance_sq_to_sym: "distance_sq_to a b = distance_sq_to b a"
  by (simp add: distance_sq_to_def length_sq_minus_rev)

lemma length_vec2_sqrt: "length_vec2 v = double_sqrt (length_sq v)"
  by (simp add: length_vec2_def length_sq_def)

lemma distance_to_sym: "distance_to a b = distance_to b a"
  by (simp add: distance_to_def length_vec2_sqrt length_sq_minus_rev)

lemma double_sub_eq_zero:
  assumes "is_finite a" "is_finite b" "double_eq a b"
  shows "\<exists>u. double_sub a b = Fin u 0"
proof -
  obtain s p where fa: "a = Fin s p" using assms(1) by (cases a) auto
  obtain t q where fb: "b = Fin t q" using assms(2) by (cases b) auto
  have "sval s p - sval t q = 0" using assms(3) by (simp add: fa fb)
  then show ?thesis by (simp add: fa fb double_sub_Fin)
qed

lemma length_sq_zero_comps:
  assumes "x v = Fin u 0" "y v = Fin w 0"
  shows "length_sq v = d_zero" "length_vec2 v = d_zero"
  using assms by (simp_all add: length_vec2_def length_sq_def d_zero_def sval_def)

lemma distance_to_eq_zero:
  assumes "finite_vec a" "finite_vec b" "Vec2_eq a b"
  shows "distance_to a b = d_zero"
proof -
  obtain u where u: "double_sub (x a) (x b) = Fin u 0"
    using assms double_sub_eq_zero[of "x a" "x b"] by (auto simp: finite_vec_def Vec2_eq_def)
  obtain w where w: "double_sub (y a) (y b) = Fin w 0"
    using assms double_sub_eq_zero[of "y a" "y b"] by (auto simp: finite_vec_def Vec2_eq_def)
  show ?thesis
    unfolding distance_to_def
    by (rule length_sq_zero_comps(2)[of _ u w]) (simp_all add: Vec2_minus_def u w)
qed

lemma double_eq_refl_finite: "is_finite a \<Longrightarrow> double_eq a a"
  by (cases a) auto

lemma distance_to_self:
  assumes "finite_vec a"
  shows "distance_to a a = d_zero"
  using assms double_eq_refl_finite
  by (intro distance_to_eq_zero) (auto simp: Vec2_eq_def finite_vec_def)

text \<open>The converse: a zero distance forces equal components, when no square underflows.\<close>

lemma double_sqrt_eq_zero:
  assumes "is_double d" "double_eq (double_sqrt d) d_zero"
  shows "\<exists>u. d = Fin u 0"
proof (cases d)
  case (Fin s q)
  have q0: "0 \<le> q" using assms(1) Fin by (auto dest: is_mag_nonneg)
  show ?thesis
  proof (cases "q = 0")
    case True then show ?thesis using Fin by simp
  next
    case False
    then have "0 < q" using q0 by simp
    then have "0 < sqrt_mag q" by (rule sqrt_mag_pos)
    then show ?thesis using assms(2) Fin False by (cases s) (simp_all add: d_zero_def sval_def)
  qed
qed (use assms in \<open>auto simp: d_zero_def split: if_splits\<close>)

lemma double_square_cases:
  "double_mul d d = NaN \<or> double_mul d d = Inf False \<or>
   (\<exists>r. double_mul d d = Fin False (round_mag r) \<and> (\<exists>s p. d = Fin s p \<and> r = p * p))"
  by (cases d) (auto simp: round_double_def Let_def)

lemma double_add_squares_zero:
  assumes "double_add (Fin False (round_mag p)) (Fin False (round_mag q)) = Fin u 0"
  shows "round_mag p = 0 \<and> round_mag q = 0"
proof (rule ccontr)
  assume n: "\<not> (round_mag p = 0 \<and> round_mag q = 0)"
  let ?v = "round_mag p + round_mag q"
  have nn: "0 \<le> round_mag p" "0 \<le> round_mag q" by (rule round_mag_nonneg)+
  have "2 powi (- 1074) \<le> round_mag p \<or> 2 powi (- 1074) \<le> round_mag q"
    using n round_mag_ge_min[of p] round_mag_ge_min[of q] by blast
  then have ge: "2 powi (- 1074) \<le> ?v" using nn by linarith
  have "(2::real) powi (- 1075) < 2 powi (- 1074)"
    by (intro power_int_strict_increasing) auto
  then have big: "\<not> ?v \<le> 2 powi (- 1075)" using ge by linarith
  have pos: "0 < ?v" using ge by (smt (verit) zero_less_power_int)
  then have nz: "round_mag ?v \<noteq> 0"
    using round_mag_eq_0_iff[of ?v] big by simp
  have "double_add (Fin False (round_mag p)) (Fin False (round_mag q)) = round_double False ?v"
    using pos by (simp add: sval_def Let_def)
  then have "round_double False ?v = Fin u 0" using assms by simp
  then have "round_mag ?v = 0" by (simp add: round_double_def Let_def split: if_splits)
  then show False using nz by simp
qed

lemma square_underflow_small:
  assumes "0 \<le> r" "round_mag (r * r) = 0"
  shows "r < 2 powi (- 537)"
proof (rule ccontr)
  assume "\<not> r < 2 powi (- 537)"
  then have ge: "2 powi (- 537) \<le> r" by simp
  have "(2::real) powi (- 537) * 2 powi (- 537) \<le> r * r"
    using ge by (intro mult_mono) auto
  moreover have "(2::real) powi (- 537) * 2 powi (- 537) = 2 powi (- 1074)"
    using power_int_add[of "2::real" "- 537" "- 537"] by simp
  moreover have "(2::real) powi (- 1075) < 2 powi (- 1074)"
    by (intro power_int_strict_increasing) auto
  ultimately have "\<not> r * r \<le> 2 powi (- 1075)" by linarith
  then show False using assms round_mag_eq_0_iff[of "r * r"] by simp
qed

lemma round_mag_ge_powi:
  assumes "2 powi e \<le> q" "- 1022 \<le> e"
  shows "2 powi e \<le> round_mag q"
proof -
  have q: "0 < q" using assms(1) by (smt (verit) zero_less_power_int)
  have fl: "e \<le> floorlog2 q" using assms(1) by (rule floorlog2_ge)
  then have "(2::real) powi e \<le> 2 powi floorlog2 q"
    by (intro power_int_increasing) auto
  also have "\<dots> \<le> round_mag q"
    using fl assms(2) by (intro round_mag_binade(1)[OF q]) simp
  finally show ?thesis .
qed

lemma double_sub_square_zero:
  assumes fa: "is_finite a" and fb: "is_finite b" and sep: "separated a b"
    and z: "double_mul (double_sub a b) (double_sub a b) = Fin False 0"
  shows "double_eq a b"
proof (rule ccontr)
  assume ne: "\<not> double_eq a b"
  obtain s p where a: "a = Fin s p" using fa by (cases a) auto
  obtain t q where b: "b = Fin t q" using fb by (cases b) auto
  let ?v = "sval s p - sval t q"
  have nz: "?v \<noteq> 0" using ne by (simp add: a b)
  then have big: "2 powi (- 537) \<le> \<bar>?v\<bar>" using sep by (simp add: separated_def a b)
  let ?r = "round_mag \<bar>?v\<bar>"
  have r: "2 powi (- 537) \<le> ?r" using big by (rule round_mag_ge_powi) simp
  have d: "double_sub a b = round_double (?v < 0) \<bar>?v\<bar>"
    unfolding a b double_sub_Fin using nz by (simp only: if_False)
  show False
  proof (cases "2 ^ 1024 \<le> ?r")
    case True
    then have "double_sub a b = Inf (?v < 0)" by (simp add: d round_double_def)
    then show False using z by simp
  next
    case False
    then have "double_sub a b = Fin (?v < 0) ?r" by (simp add: d round_double_def)
    then have "round_double False (?r * ?r) = Fin False 0" using z by simp
    then have "round_mag (?r * ?r) = 0" by (simp add: round_double_def Let_def split: if_splits)
    then have "?r < 2 powi (- 537)"
      using round_mag_nonneg[of "\<bar>?v\<bar>"] by (intro square_underflow_small)
    then show False using r by simp
  qed
qed


section \<open>Normalisation\<close>


lemma double_sqrt_sign:
  assumes "is_double d"
  shows "is_nan (double_sqrt d) \<or> double_eq (double_sqrt d) d_zero
         \<or> double_gt (double_sqrt d) d_zero"
proof (cases d)
  case (Fin s q)
  have q0: "0 \<le> q" using assms Fin by (auto dest: is_mag_nonneg)
  show ?thesis
  proof (cases "q = 0")
    case True then show ?thesis using Fin by (simp add: d_zero_def sval_def)
  next
    case False
    then have "0 < sqrt_mag q" using q0 by (intro sqrt_mag_pos) simp
    then show ?thesis using Fin False
      by (cases s) (simp_all add: d_zero_def double_gt_def sval_def)
  qed
qed (simp_all add: d_zero_def double_gt_def)

lemma normalized_cases:
  "normalized v =
     (if double_gt (length_vec2 v) d_zero then Vec2_divide v (SDouble (length_vec2 v))
      else Vec2_default)"
  by (simp add: normalized_def Let_def)

lemma double_gt_zero_excl:
  "double_gt a d_zero \<Longrightarrow> \<not> double_eq a d_zero \<and> \<not> is_nan a"
  by (cases a) (auto simp: double_gt_def d_zero_def)

lemma length_vec2_sign:
  "is_nan (length_vec2 v) \<or> double_eq (length_vec2 v) d_zero
   \<or> double_gt (length_vec2 v) d_zero"
  unfolding length_vec2_def by (rule double_sqrt_sign) simp


section \<open>Relative error of rounding and of the square root\<close>


lemma round_mag_rel_error:
  assumes "0 \<le> z"
  shows "\<bar>round_mag z - z\<bar> \<le> 2 powi (- 53) * z + 2 powi (- 1075)"
proof (cases "z = 0")
  case True then show ?thesis by simp
next
  case False
  then have z: "0 < z" using assms by simp
  have e: "\<bar>round_mag z - z\<bar> \<le> 2 powi ulp_exp z / 2" using z by (rule round_mag_error)
  have uz: "0 \<le> 2 powi (- 53) * z" using z by simp
  show ?thesis
  proof (cases "floorlog2 z - 52 \<le> - 1074")
    case True
    then have "ulp_exp z = - 1074" by (simp add: ulp_exp_def)
    moreover have "(2::real) powi (- 1074) = 2 ^ 1 * 2 powi (- 1075)"
      by (rule powi_split) simp
    ultimately have "(2::real) powi ulp_exp z / 2 = 2 powi (- 1075)" by simp
    then show ?thesis using e uz by linarith
  next
    case False
    then have "ulp_exp z = floorlog2 z - 52" by (simp add: ulp_exp_def)
    moreover have "(2::real) powi (floorlog2 z - 52) = 2 ^ 1 * 2 powi (floorlog2 z - 53)"
      by (rule powi_split) simp
    ultimately have h: "(2::real) powi ulp_exp z / 2 = 2 powi (floorlog2 z - 53)" by simp
    have "(2::real) powi (floorlog2 z - 53) = 2 powi (- 53) * 2 powi floorlog2 z"
      using power_int_add[of "2::real" "- 53" "floorlog2 z"] by (simp add: add.commute)
    also have "\<dots> \<le> 2 powi (- 53) * z"
      using floorlog2_bounds(1)[OF z] by (intro mult_left_mono) auto
    finally have "(2::real) powi ulp_exp z / 2 \<le> 2 powi (- 53) * z" using h by simp
    moreover have "(0::real) \<le> 2 powi (- 1075)" by simp
    ultimately show ?thesis using e by linarith
  qed
qed

lemma isqrt_real_bounds:
  assumes "0 \<le> t"
  shows "real (isqrt (nat \<lfloor>t\<rfloor>)) \<le> sqrt t" and "sqrt t < real (isqrt (nat \<lfloor>t\<rfloor>)) + 1"
proof -
  define N where "N = nat \<lfloor>t\<rfloor>"
  define k where "k = isqrt N"
  have N: "real N \<le> t" "t < real N + 1"
    using assms unfolding N_def by (simp_all add: of_nat_nat)
  have c: "k * k \<le> N" "N < (k + 1) * (k + 1)"
    using isqrt_correct[of N] by (simp_all add: k_def)
  have "real (k * k) \<le> real N" using c(1) by (simp only: of_nat_le_iff)
  then have "(real k)\<^sup>2 \<le> t" using N(1) by (simp add: power2_eq_square)
  then show "real (isqrt (nat \<lfloor>t\<rfloor>)) \<le> sqrt t"
    unfolding k_def[symmetric] N_def[symmetric] by (rule real_le_rsqrt)
  have "N + 1 \<le> (k + 1) * (k + 1)" using c(2) by simp
  then have "real (N + 1) \<le> real ((k + 1) * (k + 1))" by (simp only: of_nat_le_iff)
  then have "real N + 1 \<le> (real k + 1) * (real k + 1)" by (simp add: algebra_simps)
  then have "t < (real k + 1)\<^sup>2" using N(2) unfolding power2_eq_square by linarith
  then show "sqrt t < real (isqrt (nat \<lfloor>t\<rfloor>)) + 1"
    unfolding k_def[symmetric] N_def[symmetric] by (intro real_less_lsqrt) auto
qed

lemma sqrt_mag_error:
  assumes S: "0 < S"
  shows "\<bar>sqrt_mag S - sqrt S\<bar> \<le> 2 powi (- 53) * sqrt S"
proof -
  define e where "e = floorlog2 S div 2 - 52"
  define t where "t = S / 2 powi (2 * e)"
  define n where "n = int (isqrt (nat \<lfloor>t\<rfloor>))"
  define h where "h = (of_int n + 1 / 2 :: real) ^ 2"
  define m where "m = (if t < h then n else if h < t then n + 1 else if even n then n else n + 1)"
  have s: "sqrt_mag S = of_int m * 2 powi e"
    using S by (simp add: sqrt_mag_def Let_def e_def t_def n_def m_def h_def)
  have E: "0 < (2::real) powi e" by simp
  have sq: "(2::real) powi (2 * e) = (2 powi e)\<^sup>2"
    using power_int_add[of "2::real" e e] by (simp add: power2_eq_square)
  have St: "S = t * (2 powi e)\<^sup>2" unfolding t_def sq by simp
  have t104: "2 ^ 104 \<le> t"
  proof -
    have "2 * e + 104 \<le> floorlog2 S" unfolding e_def by presburger
    then have "(2::real) powi (2 * e + 104) \<le> 2 powi floorlog2 S"
      by (intro power_int_increasing) auto
    then have "(2::real) powi (2 * e + 104) \<le> S" using floorlog2_bounds(1)[OF S] by linarith
    moreover have "(2::real) powi (2 * e + 104) = 2 ^ 104 * 2 powi (2 * e)"
      by (rule powi_split) simp
    ultimately show ?thesis unfolding t_def by (simp add: field_simps)
  qed
  have t0: "0 \<le> t" using t104 by (smt (verit) zero_le_power)
  have r52: "2 ^ 52 \<le> sqrt t"
  proof (rule real_le_rsqrt)
    have "((2::real) ^ 52)\<^sup>2 = 2 ^ 104" by simp
    then show "((2::real) ^ 52)\<^sup>2 \<le> t" using t104 by simp
  qed
  have nb: "of_int n \<le> sqrt t" "sqrt t < of_int n + 1"
    using isqrt_real_bounds[OF t0] by (simp_all add: n_def)
  have n0: "0 \<le> (of_int n :: real)" by (simp add: n_def)
  have half: "\<bar>of_int m - sqrt t\<bar> \<le> 1 / 2"
  proof -
    consider (lt) "t < h" | (gt) "h < t" | (eq) "t = h" by linarith
    then show ?thesis
    proof cases
      case lt
      then have "sqrt t < of_int n + 1 / 2"
        unfolding h_def using n0 by (intro real_less_lsqrt) auto
      moreover have "m = n" using lt by (simp add: m_def)
      ultimately show ?thesis using nb by simp
    next
      case gt
      then have "of_int n + 1 / 2 < sqrt t"
        unfolding h_def by (intro real_less_rsqrt) auto
      moreover have "m = n + 1" using gt by (simp add: m_def)
      ultimately show ?thesis using nb by simp
    next
      case eq
      have "sqrt t = \<bar>of_int n + 1 / 2\<bar>" unfolding eq h_def by (rule real_sqrt_abs)
      then have "sqrt t = of_int n + 1 / 2" using n0 by simp
      moreover have "m = n \<or> m = n + 1" by (simp add: m_def)
      ultimately show ?thesis by auto
    qed
  qed
  have "(1::real) / 2 = 2 powi (- 53) * 2 ^ 52" by simp
  also have "\<dots> \<le> 2 powi (- 53) * sqrt t" using r52 by (intro mult_left_mono) auto
  finally have rel: "\<bar>of_int m - sqrt t\<bar> \<le> 2 powi (- 53) * sqrt t" using half by linarith
  have rS: "sqrt S = sqrt t * 2 powi e"
    unfolding St using E by (simp add: real_sqrt_mult)
  have "\<bar>sqrt_mag S - sqrt S\<bar> = \<bar>(of_int m - sqrt t) * 2 powi e\<bar>"
    unfolding s rS by (simp add: algebra_simps)
  also have "\<dots> = \<bar>of_int m - sqrt t\<bar> * 2 powi e" using E by (simp add: abs_mult)
  also have "\<dots> \<le> (2 powi (- 53) * sqrt t) * 2 powi e"
    using rel E by (intro mult_right_mono) auto
  also have "\<dots> = 2 powi (- 53) * sqrt S" unfolding rS by simp
  finally show ?thesis .
qed


section \<open>The error of the computed length\<close>


lemma sqrt_diff_bound:
  assumes "0 \<le> S" "0 < T"
  shows "\<bar>sqrt S - sqrt T\<bar> * sqrt T \<le> \<bar>S - T\<bar>"
proof -
  have rS: "0 \<le> sqrt S" and rT: "0 < sqrt T" using assms by simp_all
  have "(sqrt S - sqrt T) * (sqrt S + sqrt T) = S - T"
    using assms by (simp add: algebra_simps)
  then have "\<bar>sqrt S - sqrt T\<bar> * \<bar>sqrt S + sqrt T\<bar> = \<bar>S - T\<bar>"
    by (simp only: abs_mult[symmetric])
  moreover have "\<bar>sqrt S + sqrt T\<bar> = sqrt S + sqrt T" using rS rT by simp
  ultimately have e: "\<bar>sqrt S - sqrt T\<bar> * (sqrt S + sqrt T) = \<bar>S - T\<bar>" by simp
  have "\<bar>sqrt S - sqrt T\<bar> * sqrt T \<le> \<bar>sqrt S - sqrt T\<bar> * (sqrt S + sqrt T)"
    using rS by (intro mult_left_mono) auto
  then show ?thesis using e by simp
qed

lemma length_error:
  assumes p: "0 \<le> p" and q: "0 \<le> q"
    and lo: "2 powi (- 1000) \<le> p\<^sup>2 + q\<^sup>2" and hi: "p\<^sup>2 + q\<^sup>2 \<le> 2 powi 1000"
  shows "\<exists>L. length_vec2 \<lparr>x = Fin s p, y = Fin t q\<rparr> = Fin False L
           \<and> \<bar>L - sqrt (p\<^sup>2 + q\<^sup>2)\<bar> \<le> 2 powi (- 50) * sqrt (p\<^sup>2 + q\<^sup>2)"
proof -
  define u :: real where "u = 2 powi (- 53)"
  define \<eta> :: real where "\<eta> = 2 powi (- 1075)"
  define T where "T = p\<^sup>2 + q\<^sup>2"
  define A where "A = round_mag (p * p)"
  define B where "B = round_mag (q * q)"
  define v where "v = A + B"
  define S where "S = round_mag v"
  define L where "L = sqrt_mag S"
  have u0: "0 < u" and e0: "0 < \<eta>" by (simp_all add: u_def \<eta>_def)
  have T0: "0 < T" using lo unfolding T_def by (smt (verit) zero_less_power_int)
  have uT0: "0 \<le> u * T" using u0 T0 by simp
  have "u * 2 powi (- 1000) \<le> u * T"
    using lo u0 unfolding T_def by (intro mult_left_mono) auto
  moreover have "4 * \<eta> \<le> u * 2 powi (- 1000)" unfolding u_def \<eta>_def by simp
  ultimately have eT: "4 * \<eta> \<le> u * T" by linarith
  have u8: "u \<le> 1 / 8" unfolding u_def by simp
  then have "u * T \<le> 1 / 8 * T" using T0 by (intro mult_right_mono) auto
  then have uT4: "8 * (u * T) \<le> T" by simp
  have A0: "0 \<le> A" and B0: "0 \<le> B" unfolding A_def B_def by (rule round_mag_nonneg)+
  have "\<bar>A - p * p\<bar> \<le> u * (p * p) + \<eta>"
    unfolding A_def u_def \<eta>_def by (rule round_mag_rel_error) simp
  moreover have "\<bar>B - q * q\<bar> \<le> u * (q * q) + \<eta>"
    unfolding B_def u_def \<eta>_def by (rule round_mag_rel_error) simp
  moreover have "u * T = u * (p * p) + u * (q * q)"
    unfolding T_def by (simp add: power2_eq_square algebra_simps)
  moreover have "T = p * p + q * q" unfolding T_def by (simp add: power2_eq_square)
  ultimately have vT: "\<bar>v - T\<bar> \<le> u * T + 2 * \<eta>" unfolding v_def by linarith
  have v2T: "v \<le> 2 * T" and vpos: "0 < v" using vT eT uT4 T0 by linarith+
  have "\<bar>S - v\<bar> \<le> u * v + \<eta>"
    unfolding S_def u_def \<eta>_def using vpos by (intro round_mag_rel_error) simp
  moreover have "u * v \<le> u * (2 * T)" using v2T u0 by (intro mult_left_mono) auto
  ultimately have Sv: "\<bar>S - v\<bar> \<le> 2 * (u * T) + \<eta>" by simp
  have ST: "\<bar>S - T\<bar> \<le> 4 * (u * T)" using Sv vT eT e0 by linarith
  have Spos: "0 < S" and S2T: "S \<le> 2 * T" using ST uT4 T0 by linarith+
  have "T \<le> 2 ^ 1000" using hi unfolding T_def by simp
  moreover have "2 * (2::real) ^ 1000 < 2 ^ 1024" by simp
  ultimately have big: "2 * T < 2 ^ 1024" by linarith
  have nA: "\<not> 2 ^ 1024 \<le> A" and nB: "\<not> 2 ^ 1024 \<le> B" and nS: "\<not> 2 ^ 1024 \<le> S"
    using big v2T S2T A0 B0 unfolding v_def by linarith+
  have mA: "double_mul (Fin s p) (Fin s p) = Fin False A"
    using nA by (simp add: round_double_def A_def)
  have mB: "double_mul (Fin t q) (Fin t q) = Fin False B"
    using nB by (simp add: round_double_def B_def)
  have ad: "double_add (Fin False A) (Fin False B) = Fin False S"
    using vpos nS by (simp add: sval_def round_double_def Let_def v_def[symmetric] S_def)
  have len: "length_vec2 \<lparr>x = Fin s p, y = Fin t q\<rparr> = Fin False L"
    unfolding length_vec2_def using Spos
    by (simp only: Vec2.simps mA mB ad) (simp add: L_def)
  have rT: "0 < sqrt T" using T0 by simp
  have "\<bar>sqrt S - sqrt T\<bar> * sqrt T \<le> \<bar>S - T\<bar>"
    using Spos T0 by (intro sqrt_diff_bound) auto
  also have "\<dots> \<le> 4 * (u * T)" by (rule ST)
  also have "\<dots> = (4 * u * sqrt T) * sqrt T" using T0 by simp
  finally have dS: "\<bar>sqrt S - sqrt T\<bar> \<le> 4 * u * sqrt T"
    using rT by (simp only: mult_le_cancel_right_pos)
  have us: "0 \<le> u * sqrt T" using u0 rT by simp
  have "4 * (u * sqrt T) \<le> sqrt T" 
  proof -
    have "u * sqrt T \<le> 1 / 8 * sqrt T"
      using u8 rT by (intro mult_right_mono) auto
    then show ?thesis using us by linarith
  qed
  then have sS: "sqrt S \<le> 2 * sqrt T" using dS by linarith
  have "\<bar>L - sqrt S\<bar> \<le> u * sqrt S"
    unfolding L_def u_def using Spos by (rule sqrt_mag_error)
  moreover have "u * sqrt S \<le> u * (2 * sqrt T)" using sS u0 by (intro mult_left_mono) auto
  ultimately have L6: "\<bar>L - sqrt T\<bar> \<le> 6 * (u * sqrt T)" using dS by linarith
  have p50: "(2::real) powi (- 50) = 8 * u" unfolding u_def by simp
  have "2 powi (- 50) * sqrt T = 8 * (u * sqrt T)" by (simp only: p50 mult.assoc)
  then have "\<bar>L - sqrt T\<bar> \<le> 2 powi (- 50) * sqrt T" using L6 us by linarith
  then show ?thesis using len unfolding T_def by blast
qed


section \<open>The length of a normalised vector\<close>


lemma norm2_perturb:
  fixes c d C D :: real
  shows "\<bar>sqrt (C\<^sup>2 + D\<^sup>2) - sqrt (c\<^sup>2 + d\<^sup>2)\<bar> \<le> \<bar>C - c\<bar> + \<bar>D - d\<bar>"
proof -
  have 1: "sqrt ((c + (C - c))\<^sup>2 + (d + (D - d))\<^sup>2)
      \<le> sqrt (c\<^sup>2 + d\<^sup>2) + sqrt ((C - c)\<^sup>2 + (D - d)\<^sup>2)"
    by (rule real_sqrt_sum_squares_triangle_ineq)
  have 2: "sqrt ((C + (c - C))\<^sup>2 + (D + (d - D))\<^sup>2)
      \<le> sqrt (C\<^sup>2 + D\<^sup>2) + sqrt ((c - C)\<^sup>2 + (d - D)\<^sup>2)"
    by (rule real_sqrt_sum_squares_triangle_ineq)
  have 3: "sqrt ((C - c)\<^sup>2 + (D - d)\<^sup>2) \<le> \<bar>C - c\<bar> + \<bar>D - d\<bar>"
    by (rule sqrt_sum_squares_le_sum_abs)
  have 4: "sqrt ((c - C)\<^sup>2 + (d - D)\<^sup>2) \<le> \<bar>c - C\<bar> + \<bar>d - D\<bar>"
    by (rule sqrt_sum_squares_le_sum_abs)
  show ?thesis using 1 2 3 4 by simp
qed

lemma normalized_unit_length:
  assumes p: "0 \<le> p" and q: "0 \<le> q"
    and lo: "2 powi (- 1000) \<le> p\<^sup>2 + q\<^sup>2" and hi: "p\<^sup>2 + q\<^sup>2 \<le> 2 powi 1000"
  shows "\<exists>L'. length_vec2 (normalized \<lparr>x = Fin s p, y = Fin t q\<rparr>) = Fin False L'
            \<and> \<bar>L' - 1\<bar> \<le> 5 * 2 powi (- 50)"
proof -
  define \<delta> :: real where "\<delta> = 2 powi (- 50)"
  define u :: real where "u = 2 powi (- 53)"
  define \<eta> :: real where "\<eta> = 2 powi (- 1075)"
  define N where "N = sqrt (p\<^sup>2 + q\<^sup>2)"
  have d0: "0 < \<delta>" and d8: "\<delta> \<le> 1 / 8" and u0: "0 < u" and e0: "0 < \<eta>"
    and ud: "4 * u \<le> \<delta> / 2" and ed: "2 * \<eta> \<le> \<delta> / 2"
    by (simp_all add: \<delta>_def u_def \<eta>_def)
  have T0: "0 < p\<^sup>2 + q\<^sup>2" using lo by (smt (verit) zero_less_power_int)
  have N0: "0 < N" unfolding N_def using T0 by simp
  obtain L where len: "length_vec2 \<lparr>x = Fin s p, y = Fin t q\<rparr> = Fin False L"
    and eL: "\<bar>L - N\<bar> \<le> \<delta> * N"
    using length_error[OF p q lo hi, of s t] unfolding N_def \<delta>_def by blast
  have dN0: "0 \<le> \<delta> * N" using d0 N0 by simp
  have dN8: "\<delta> * N \<le> 1 / 8 * N" using d8 N0 by (intro mult_right_mono) auto
  have L0: "0 < L" using eL dN0 dN8 N0 by linarith
  have "(1 + \<delta>) * N = N + \<delta> * N" by (simp add: algebra_simps)
  then have Lhi: "L \<le> (1 + \<delta>) * N" using eL by linarith
  have "(1 - \<delta>) * N = N - \<delta> * N" by (simp add: algebra_simps)
  then have Llo: "(1 - \<delta>) * N \<le> L" using eL by linarith
  define \<rho> where "\<rho> = N / L"
  have r0: "0 < \<rho>" unfolding \<rho>_def using N0 L0 by simp
  have rlo: "1 - \<delta> \<le> \<rho>"
  proof -
    have "(1 - \<delta>) * L \<le> (1 - \<delta>) * ((1 + \<delta>) * N)"
      using Lhi d8 by (intro mult_left_mono) auto
    also have "\<dots> = N - \<delta> * \<delta> * N" by (simp add: algebra_simps)
    also have "\<dots> \<le> N" using N0 by simp
    finally show ?thesis unfolding \<rho>_def using L0 by (simp add: pos_le_divide_eq)
  qed
  have rhi: "\<rho> \<le> 1 + 2 * \<delta>"
  proof -
    have "\<delta> * \<delta> \<le> 1 / 8 * \<delta>" using d8 d0 by (intro mult_right_mono) auto
    then have "0 \<le> (\<delta> - 2 * (\<delta> * \<delta>)) * N" using N0 d0 by (intro mult_nonneg_nonneg) auto
    then have "N \<le> (1 + 2 * \<delta>) * ((1 - \<delta>) * N)" by (simp add: algebra_simps)
    also have "\<dots> \<le> (1 + 2 * \<delta>) * L"
      using Llo d0 by (intro mult_left_mono) auto
    finally show ?thesis unfolding \<rho>_def using L0 by (simp add: pos_divide_le_eq)
  qed
  have r2: "\<rho> \<le> 2" using rhi d8 by linarith
  define c where "c = p / L"
  define d where "d = q / L"
  define C where "C = round_mag c"
  define D where "D = round_mag d"
  have c0: "0 \<le> c" and dd0: "0 \<le> d" unfolding c_def d_def using p q L0 by simp_all
  have "p \<le> N" unfolding N_def by (rule real_sqrt_sum_squares_ge1)
  then have cr: "c \<le> \<rho>" unfolding c_def \<rho>_def using L0 by (intro divide_right_mono) auto
  have "q \<le> N" unfolding N_def by (rule real_sqrt_sum_squares_ge2)
  then have dr: "d \<le> \<rho>" unfolding d_def \<rho>_def using L0 by (intro divide_right_mono) auto
  have nrm: "sqrt (c\<^sup>2 + d\<^sup>2) = \<rho>"
  proof -
    have "c\<^sup>2 + d\<^sup>2 = (p\<^sup>2 + q\<^sup>2) / L\<^sup>2"
      unfolding c_def d_def by (simp add: power_divide add_divide_distrib)
    then have "sqrt (c\<^sup>2 + d\<^sup>2) = sqrt (p\<^sup>2 + q\<^sup>2) / sqrt (L\<^sup>2)"
      by (simp only: real_sqrt_divide)
    then show ?thesis unfolding \<rho>_def N_def using L0 by simp
  qed
  have eC: "\<bar>C - c\<bar> \<le> u * c + \<eta>"
    unfolding C_def u_def \<eta>_def using c0 by (rule round_mag_rel_error)
  have eD: "\<bar>D - d\<bar> \<le> u * d + \<eta>"
    unfolding D_def u_def \<eta>_def using dd0 by (rule round_mag_rel_error)
  have uc: "u * c \<le> u * 2" using cr r2 u0 by (intro mult_left_mono) auto
  have udd: "u * d \<le> u * 2" using dr r2 u0 by (intro mult_left_mono) auto
  have uc0: "0 \<le> u * c" "0 \<le> u * d" using u0 c0 dd0 by simp_all
  have C0: "0 \<le> C" and D0: "0 \<le> D" unfolding C_def D_def by (rule round_mag_nonneg)+
  have small: "C \<le> 4" "D \<le> 4" using eC eD uc udd cr dr r2 ud ed d8 by linarith+
  have "(4::real) < 2 ^ 1024" by simp
  then have nC: "\<not> 2 ^ 1024 \<le> C" and nD: "\<not> 2 ^ 1024 \<le> D" using small by linarith+
  have gt: "double_gt (Fin False L) d_zero"
    using L0 by (simp add: double_gt_def d_zero_def sval_def)
  have dx: "double_div (Fin s p) (Fin False L) = Fin s C"
    using L0 nC by (simp add: round_double_def C_def c_def)
  have dy: "double_div (Fin t q) (Fin False L) = Fin t D"
    using L0 nD by (simp add: round_double_def D_def d_def)
  have nv: "normalized \<lparr>x = Fin s p, y = Fin t q\<rparr> = \<lparr>x = Fin s C, y = Fin t D\<rparr>"
    unfolding normalized_cases len using gt
    by (simp only: if_True Vec2_divide_def Vec2.simps to_double.simps dx dy)
  define N' where "N' = sqrt (C\<^sup>2 + D\<^sup>2)"
  have "\<bar>N' - \<rho>\<bar> \<le> \<bar>C - c\<bar> + \<bar>D - d\<bar>"
    unfolding N'_def nrm[symmetric] by (rule norm2_perturb)
  then have pr: "\<bar>N' - \<rho>\<bar> \<le> \<delta>" using eC eD uc udd ud ed by linarith
  have N'lo: "1 - 2 * \<delta> \<le> N'" and N'hi: "N' \<le> 1 + 3 * \<delta>" using pr rlo rhi by linarith+
  have N'half: "1 / 2 \<le> N'" and N'2: "N' \<le> 2" using N'lo N'hi d8 by linarith+
  have T': "C\<^sup>2 + D\<^sup>2 = N' * N'" unfolding N'_def by simp
  have "1 / 2 * (1 / 2) \<le> N' * N'" using N'half by (intro mult_mono) auto
  moreover have "(2::real) powi (- 1000) \<le> 1 / 2 * (1 / 2)" by simp
  ultimately have lo': "2 powi (- 1000) \<le> C\<^sup>2 + D\<^sup>2" unfolding T' by linarith
  have "N' * N' \<le> 2 * 2" using N'2 N'half by (intro mult_mono) auto
  moreover have "(2::real) * 2 \<le> 2 powi 1000" by simp
  ultimately have hi': "C\<^sup>2 + D\<^sup>2 \<le> 2 powi 1000" unfolding T' by linarith
  obtain L' where len': "length_vec2 \<lparr>x = Fin s C, y = Fin t D\<rparr> = Fin False L'"
    and eL': "\<bar>L' - N'\<bar> \<le> \<delta> * N'"
    using length_error[OF C0 D0 lo' hi', of s t] unfolding N'_def \<delta>_def by blast
  have "\<delta> * N' \<le> \<delta> * 2" using N'2 d0 by (intro mult_left_mono) auto
  then have "\<bar>L' - 1\<bar> \<le> 5 * \<delta>" using eL' N'lo N'hi by linarith
  then show ?thesis using len' unfolding nv \<delta>_def by blast
qed


section \<open>Ordering, equality, scalar multiplication, additive inverse, assignment\<close>

lemma double_add_neg_finite: "is_finite a \<Longrightarrow> double_add a (double_neg a) = d_zero"
  by (cases a) (auto simp: sval_def d_zero_def)

lemma double_sub_self_finite: "is_finite a \<Longrightarrow> double_sub a a = d_zero"
  by (simp add: double_sub_def double_add_neg_finite)

lemma double_add_neg_zero_iff:
  "double_eq (double_add a (double_neg a)) d_zero \<longleftrightarrow> is_finite a"
  by (cases a) (auto simp: sval_def d_zero_def)

lemma double_sub_self_zero_iff: "double_eq (double_sub a a) d_zero \<longleftrightarrow> is_finite a"
  by (simp add: double_sub_def double_add_neg_zero_iff)

lemma Vec2_trichotomy_iff:
  "Vec2_lt a b \<or> Vec2_eq a b \<or> Vec2_lt b a \<longleftrightarrow> Vec2_spaceship a b \<noteq> unordered"
  using Vec2_gt_conv[of a b] Vec2_spaceship_equivalent[of a b]
  by (cases "Vec2_spaceship a b") (auto simp: Vec2_lt_def Vec2_gt_def)

lemma Vec2_eq_default: "Vec2_eq Vec2_default Vec2_default"
  by (simp add: Vec2_eq_def Vec2_default_def d_zero_def)

text \<open>
  C2 (amended).  The relational operators are the lexicographic comparison of \<open>(x, y)\<close>
  with the built-in comparisons of \<open>double\<close>: \<open>a < b\<close> iff \<open>a.x < b.x\<close>, or
  \<open>a.x == b.x\<close> and \<open>a.y < b.y\<close>; \<open>\<le>\<close>, \<open>>\<close> and \<open>\<ge>\<close> follow from \<open><\<close> and \<open>==\<close>.  The
  order is strict and consistent with equality: \<open>a == b\<close> excludes \<open>a < b\<close> and \<open>b < a\<close>,
  \<open>a < b\<close> excludes \<open>b < a\<close>, and \<open><\<close> is transitive.  Of \<open>a < b\<close>, \<open>a == b\<close>, \<open>b < a\<close> at
  most one holds; one of them holds exactly when \<open>a <=> b\<close> is not \<open>unordered\<close>, in
  particular when no component of \<open>a\<close> or \<open>b\<close> is a NaN.
\<close>

theorem Vec2_order_lexicographic:
  "(Vec2_lt a b \<longleftrightarrow>
      double_lt (x a) (x b) \<or> (double_eq (x a) (x b) \<and> double_lt (y a) (y b)))
   \<and> (Vec2_le a b \<longleftrightarrow> Vec2_lt a b \<or> Vec2_eq a b)
   \<and> (Vec2_gt a b \<longleftrightarrow> Vec2_lt b a)
   \<and> (Vec2_ge a b \<longleftrightarrow> Vec2_lt b a \<or> Vec2_eq a b)
   \<and> (Vec2_eq a b \<longrightarrow> \<not> Vec2_lt a b \<and> \<not> Vec2_lt b a)
   \<and> \<not> (Vec2_lt a b \<and> Vec2_lt b a)
   \<and> (Vec2_lt a b \<and> Vec2_lt b c \<longrightarrow> Vec2_lt a c)
   \<and> (Vec2_lt a b \<or> Vec2_eq a b \<or> Vec2_lt b a \<longleftrightarrow> Vec2_spaceship a b \<noteq> unordered)
   \<and> (no_nan a \<and> no_nan b \<longrightarrow> Vec2_lt a b \<or> Vec2_eq a b \<or> Vec2_lt b a)"
proof -
  have le: "Vec2_le a b \<longleftrightarrow> Vec2_lt a b \<or> Vec2_eq a b"
    by (simp add: Vec2_le_def Vec2_lt_def Vec2_spaceship_equivalent)
  have ge: "Vec2_ge a b \<longleftrightarrow> Vec2_lt b a \<or> Vec2_eq a b"
    using Vec2_gt_conv[of a b]
    by (simp add: Vec2_ge_def Vec2_gt_def Vec2_spaceship_equivalent)
  show ?thesis
    using le ge Vec2_lt_iff[of a b] Vec2_gt_conv[of a b] Vec2_eq_not_lt[of a b]
      Vec2_lt_asym[of a b] Vec2_lt_trans[of a b c] Vec2_trichotomy[of a b]
      Vec2_trichotomy_iff[of a b]
    by blast
qed

theorem Vec2_order_lexicographic_witness:
  "Vec2_lt \<lparr>x = Fin False 1, y = Fin False 2\<rparr> \<lparr>x = Fin False 2, y = Fin False 3\<rparr>
   \<and> Vec2_lt \<lparr>x = Fin False 2, y = Fin False 3\<rparr> \<lparr>x = Fin False 2, y = Fin False 4\<rparr>
   \<and> Vec2_lt \<lparr>x = Fin False 1, y = Fin False 2\<rparr> \<lparr>x = Fin False 2, y = Fin False 4\<rparr>
   \<and> \<not> Vec2_eq \<lparr>x = Fin False 1, y = Fin False 2\<rparr> \<lparr>x = Fin False 2, y = Fin False 3\<rparr>
   \<and> \<not> Vec2_lt \<lparr>x = Fin False 2, y = Fin False 3\<rparr> \<lparr>x = Fin False 1, y = Fin False 2\<rparr>
   \<and> Vec2_eq \<lparr>x = Fin False 0, y = Fin False 2\<rparr> \<lparr>x = Fin True 0, y = Fin False 2\<rparr>
   \<and> \<not> Vec2_lt \<lparr>x = Fin False 0, y = Fin False 2\<rparr> \<lparr>x = Fin True 0, y = Fin False 2\<rparr>"
  using
    Vec2_order_lexicographic[of "\<lparr>x = Fin False 1, y = Fin False 2\<rparr>"
      "\<lparr>x = Fin False 2, y = Fin False 3\<rparr>" "\<lparr>x = Fin False 2, y = Fin False 4\<rparr>"]
    Vec2_order_lexicographic[of "\<lparr>x = Fin False 2, y = Fin False 3\<rparr>"
      "\<lparr>x = Fin False 2, y = Fin False 4\<rparr>" "\<lparr>x = Fin False 2, y = Fin False 4\<rparr>"]
    Vec2_order_lexicographic[of "\<lparr>x = Fin False 0, y = Fin False 2\<rparr>"
      "\<lparr>x = Fin True 0, y = Fin False 2\<rparr>" "\<lparr>x = Fin True 0, y = Fin False 2\<rparr>"]
  by (simp add: Vec2_eq_def no_nan_def sval_def)

text \<open>
  C2, as stated, fails: with a NaN component none of \<open>a < b\<close>, \<open>a == b\<close>, \<open>b < a\<close> holds,
  here for \<open>a = (NaN, 0.0)\<close> and \<open>b = (0.0, 0.0)\<close>.
\<close>

theorem Vec2_order_not_total:
  "\<not> Vec2_lt \<lparr>x = NaN, y = d_zero\<rparr> \<lparr>x = d_zero, y = d_zero\<rparr>
   \<and> \<not> Vec2_eq \<lparr>x = NaN, y = d_zero\<rparr> \<lparr>x = d_zero, y = d_zero\<rparr>
   \<and> \<not> Vec2_lt \<lparr>x = d_zero, y = d_zero\<rparr> \<lparr>x = NaN, y = d_zero\<rparr>"
  by (simp add: Vec2_lt_iff Vec2_eq_def d_zero_def)

text \<open>
  C4.  The member \<open>v * s\<close> and the free function \<open>s * v\<close> return the same vector, for
  every vector and every scalar, integral or floating-point.
\<close>

theorem scalar_times_commutes:
  "Vec2_times v s = scalar_times_Vec2 s v"
  by (simp add: Vec2_times_def scalar_times_Vec2_def)

text \<open>
  The two results are the same datum; \<open>v * s == s * v\<close> evaluates to true exactly when
  that datum has no NaN component.
\<close>

lemma scalar_times_commutes_eq:
  "Vec2_eq (Vec2_times v s) (scalar_times_Vec2 s v) \<longleftrightarrow> no_nan (Vec2_times v s)"
  by (simp add: scalar_times_Vec2_def Vec2_times_def[symmetric] Vec2_eq_refl_iff)

text \<open>
  C5 (amended).  \<open>a == b\<close> holds iff \<open>a.x == b.x\<close> and \<open>a.y == b.y\<close> as doubles.  The
  relation is symmetric and transitive; \<open>a == a\<close> holds exactly for the vectors with no
  NaN component.
\<close>

theorem Vec2_eq_componentwise:
  "(Vec2_eq a b \<longleftrightarrow> double_eq (x a) (x b) \<and> double_eq (y a) (y b))
   \<and> (Vec2_eq a a \<longleftrightarrow> no_nan a)
   \<and> (Vec2_eq a b \<longrightarrow> Vec2_eq b a)
   \<and> (Vec2_eq a b \<and> Vec2_eq b c \<longrightarrow> Vec2_eq a c)"
  using Vec2_eq_refl_iff[of a] Vec2_eq_sym[of a b] Vec2_eq_trans[of a b c]
  by (auto simp: Vec2_eq_def)

theorem Vec2_eq_componentwise_witness:
  "Vec2_eq \<lparr>x = Fin False 0, y = Fin False 2\<rparr> \<lparr>x = Fin True 0, y = Fin False 2\<rparr>
   \<and> Vec2_eq \<lparr>x = Fin True 0, y = Fin False 2\<rparr> \<lparr>x = Fin False 0, y = Fin False 2\<rparr>
   \<and> Vec2_eq \<lparr>x = Fin False 0, y = Fin False 2\<rparr> \<lparr>x = Fin False 0, y = Fin False 2\<rparr>"
  using Vec2_eq_componentwise[of "\<lparr>x = Fin False 0, y = Fin False 2\<rparr>"
      "\<lparr>x = Fin True 0, y = Fin False 2\<rparr>" "\<lparr>x = Fin False 0, y = Fin False 2\<rparr>"]
  by (simp add: no_nan_def sval_def)

text \<open>C5, as stated, fails: \<open>==\<close> is not reflexive at \<open>(NaN, 0.0)\<close>.\<close>

theorem Vec2_eq_not_reflexive:
  "\<not> Vec2_eq \<lparr>x = NaN, y = d_zero\<rparr> \<lparr>x = NaN, y = d_zero\<rparr>"
  by (simp add: Vec2_eq_def)

text \<open>
  C6 (amended).  \<open>v + (-v)\<close> equals the zero vector exactly when both components of \<open>v\<close>
  are finite, and so does \<open>v - v\<close>; both results are then \<open>(+0.0, +0.0)\<close>.
\<close>

theorem Vec2_additive_inverse:
  "(Vec2_eq (Vec2_plus v (Vec2_uminus v)) Vec2_default \<longleftrightarrow> finite_vec v)
   \<and> (Vec2_eq (Vec2_minus v v) Vec2_default \<longleftrightarrow> finite_vec v)
   \<and> (finite_vec v \<longrightarrow>
        Vec2_plus v (Vec2_uminus v) = Vec2_default \<and> Vec2_minus v v = Vec2_default)"
proof -
  have z: "Vec2_default = \<lparr>x = d_zero, y = d_zero\<rparr>" by (simp add: Vec2_default_def)
  have p: "Vec2_eq (Vec2_plus v (Vec2_uminus v)) Vec2_default \<longleftrightarrow> finite_vec v"
    by (simp add: z Vec2_eq_def Vec2_plus_def Vec2_uminus_def finite_vec_def
        double_add_neg_zero_iff)
  have m: "Vec2_eq (Vec2_minus v v) Vec2_default \<longleftrightarrow> finite_vec v"
    by (simp add: z Vec2_eq_def Vec2_minus_def finite_vec_def double_sub_self_zero_iff)
  have e: "finite_vec v \<longrightarrow>
      Vec2_plus v (Vec2_uminus v) = Vec2_default \<and> Vec2_minus v v = Vec2_default"
    by (simp add: z finite_vec_def Vec2_plus_def Vec2_uminus_def Vec2_minus_def
        double_add_neg_finite double_sub_self_finite)
  show ?thesis using p m e by blast
qed

theorem Vec2_additive_inverse_witness:
  "finite_vec \<lparr>x = Fin False 3, y = Fin True 4\<rparr>
   \<and> Vec2_plus \<lparr>x = Fin False 3, y = Fin True 4\<rparr>
        (Vec2_uminus \<lparr>x = Fin False 3, y = Fin True 4\<rparr>) = Vec2_default
   \<and> Vec2_minus \<lparr>x = Fin False 3, y = Fin True 4\<rparr> \<lparr>x = Fin False 3, y = Fin True 4\<rparr>
       = Vec2_default"
proof -
  have f: "finite_vec \<lparr>x = Fin False 3, y = Fin True 4\<rparr>"
    by (simp add: finite_vec_def)
  show ?thesis
    using f Vec2_additive_inverse[of "\<lparr>x = Fin False 3, y = Fin True 4\<rparr>"] by blast
qed

text \<open>
  C6, as stated, fails: at \<open>v = (+\<infinity>, 0.0)\<close> both \<open>v + (-v)\<close> and \<open>v - v\<close> have the
  component \<open>\<infinity> - \<infinity>\<close>, a NaN, and do not compare equal to the zero vector.
\<close>

theorem Vec2_additive_inverse_infinity:
  "\<not> Vec2_eq (Vec2_plus \<lparr>x = Inf False, y = d_zero\<rparr>
                 (Vec2_uminus \<lparr>x = Inf False, y = d_zero\<rparr>)) Vec2_default
   \<and> \<not> Vec2_eq (Vec2_minus \<lparr>x = Inf False, y = d_zero\<rparr> \<lparr>x = Inf False, y = d_zero\<rparr>)
          Vec2_default"
  by (simp add: Vec2_eq_def Vec2_plus_def Vec2_uminus_def Vec2_minus_def double_sub_def)

text \<open>
  C10.  Each compound assignment stores in the receiver what the pure operator returns
  on the old values, leaves every other object alone, and returns the address of the
  receiver; this holds also when the argument of \<open>+=\<close> or \<open>-=\<close> is the receiver itself.
\<close>

theorem compound_assignment_refines_pure:
  "Vec2_plus_assign h this other = (this, h(this := Vec2_plus (h this) (h other)))
   \<and> Vec2_minus_assign h this other = (this, h(this := Vec2_minus (h this) (h other)))
   \<and> Vec2_times_assign h this s = (this, h(this := Vec2_times (h this) s))
   \<and> Vec2_divide_assign h this s = (this, h(this := Vec2_divide (h this) s))"
  by (auto simp: Vec2_plus_assign_def Vec2_minus_assign_def Vec2_times_assign_def
      Vec2_divide_assign_def Vec2_plus_def Vec2_minus_def Vec2_times_def Vec2_divide_def
      Let_def fun_eq_iff)


section \<open>The perpendicular\<close>

lemma dot_perpendicular_finite:
  assumes "is_finite (double_mul (x v) (y v))"
  shows "dot (perpendicular v) v = d_zero" and "dot v (perpendicular v) = d_zero"
proof -
  obtain s r where m: "double_mul (x v) (y v) = Fin s r"
    using assms by (cases "double_mul (x v) (y v)") auto
  have 1: "double_mul (double_neg (y v)) (x v) = Fin (\<not> s) r"
    using m by (simp add: double_mul_neg_left double_mul_commute[of "y v" "x v"])
  have 2: "double_mul (x v) (double_neg (y v)) = Fin (\<not> s) r"
    using m by (simp add: double_mul_neg_right)
  have 3: "double_mul (y v) (x v) = Fin s r"
    using m by (simp add: double_mul_commute[of "y v" "x v"])
  show "dot (perpendicular v) v = d_zero"
    by (simp add: dot_def perpendicular_def 1 m sval_def d_zero_def)
  show "dot v (perpendicular v) = d_zero"
    by (simp add: dot_def perpendicular_def 2 3 sval_def d_zero_def)
qed

lemma dot_perpendicular_nan:
  assumes "\<not> is_finite (double_mul (x v) (y v))"
  shows "dot (perpendicular v) v = NaN" and "dot v (perpendicular v) = NaN"
proof -
  have c: "double_mul (y v) (x v) = double_mul (x v) (y v)" by (rule double_mul_commute)
  have n: "double_add (double_neg p) p = NaN \<and> double_add p (double_neg p) = NaN"
    if "\<not> is_finite p" for p
    using that by (cases p) auto
  show "dot (perpendicular v) v = NaN"
    using n[OF assms] by (simp add: dot_def perpendicular_def double_mul_neg_left c)
  show "dot v (perpendicular v) = NaN"
    using n[OF assms] by (simp add: dot_def perpendicular_def double_mul_neg_right c)
qed

lemma length_perpendicular: "length_vec2 (perpendicular v) = length_vec2 v"
  by (simp add: length_vec2_def perpendicular_def double_mul_neg_neg
      double_add_commute[of "double_mul (y v) (y v)"])

text \<open>
  C7 (amended).  \<open>perpendicular()\<close> returns \<open>(-y, x)\<close>.  Its length is the same double as
  the length of the input, with no rounding difference at all.  It is orthogonal to the
  input, \<open>v.perpendicular().dot(v) == 0\<close> and \<open>v.dot(v.perpendicular()) == 0\<close>, exactly
  when the product \<open>x * y\<close> is finite (neither overflows nor involves a NaN or an
  infinity); the dot product is then \<open>+0.0\<close>.
\<close>

theorem perpendicular_orthogonal:
  "perpendicular v = \<lparr>x = double_neg (y v), y = x v\<rparr>
   \<and> length_vec2 (perpendicular v) = length_vec2 v
   \<and> (double_eq (dot (perpendicular v) v) d_zero \<longleftrightarrow> is_finite (double_mul (x v) (y v)))
   \<and> (double_eq (dot v (perpendicular v)) d_zero \<longleftrightarrow> is_finite (double_mul (x v) (y v)))
   \<and> (is_finite (double_mul (x v) (y v)) \<longrightarrow>
        dot (perpendicular v) v = d_zero \<and> dot v (perpendicular v) = d_zero)"
proof -
  have z: "double_eq d_zero d_zero" "\<not> double_eq NaN d_zero" by (simp_all add: d_zero_def)
  show ?thesis
    using dot_perpendicular_finite[of v] dot_perpendicular_nan[of v]
      length_perpendicular[of v] z
    by (cases "is_finite (double_mul (x v) (y v))") (simp_all add: perpendicular_def)
qed

theorem perpendicular_orthogonal_witness:
  "is_finite (double_mul (Fin False 3) (Fin False 4))
   \<and> perpendicular \<lparr>x = Fin False 3, y = Fin False 4\<rparr> = \<lparr>x = Fin True 4, y = Fin False 3\<rparr>
   \<and> double_eq (dot (perpendicular \<lparr>x = Fin False 3, y = Fin False 4\<rparr>)
         \<lparr>x = Fin False 3, y = Fin False 4\<rparr>) d_zero"
proof -
  have f: "is_finite (double_mul (Fin False 3) (Fin False 4))"
    by (simp add: round_eval)
  have g: "is_finite (double_mul (x \<lparr>x = Fin False 3, y = Fin False 4\<rparr>)
      (y \<lparr>x = Fin False 3, y = Fin False 4\<rparr>))"
    using f by simp
  have "double_eq (dot (perpendicular \<lparr>x = Fin False 3, y = Fin False 4\<rparr>)
         \<lparr>x = Fin False 3, y = Fin False 4\<rparr>) d_zero"
    using g perpendicular_orthogonal[of "\<lparr>x = Fin False 3, y = Fin False 4\<rparr>"] by blast
  then show ?thesis
    using f by (simp add: perpendicular_def)
qed

text \<open>
  C7, as stated, fails: for \<open>v = (2^600, 2^600)\<close>, two ordinary doubles, both products
  of the dot product overflow, \<open>-\<infinity> + \<infinity>\<close> is a NaN, and the comparison with \<open>0\<close> is
  false.
\<close>

theorem perpendicular_dot_overflow:
  "valid_vec \<lparr>x = Fin False (2 powi 600), y = Fin False (2 powi 600)\<rparr>
   \<and> dot (perpendicular \<lparr>x = Fin False (2 powi 600), y = Fin False (2 powi 600)\<rparr>)
        \<lparr>x = Fin False (2 powi 600), y = Fin False (2 powi 600)\<rparr> = NaN
   \<and> \<not> double_eq
        (dot (perpendicular \<lparr>x = Fin False (2 powi 600), y = Fin False (2 powi 600)\<rparr>)
           \<lparr>x = Fin False (2 powi 600), y = Fin False (2 powi 600)\<rparr>) d_zero"
proof -
  have m: "is_mag (2 powi 600)" by (rule is_mag_powi) simp_all
  have o: "round_double s (2 powi 1200) = Inf s" for s
    by (rule round_double_overflow) simp
  show ?thesis
    using m by (simp add: valid_vec_def dot_def perpendicular_def o del: power_int_numeral)
qed


section \<open>The cross product\<close>


lemma cross_parallel:
  assumes va: "valid_vec a" and vb: "valid_vec b"
    and fa: "finite_vec a" and fb: "finite_vec b"
    and par: "parallel a b"
    and fin: "is_finite (double_mul (x a) (y b))"
  shows "double_eq (cross a b) d_zero"
proof -
  obtain s1 p1 where ax: "x a = Fin s1 p1" using fa by (cases "x a") (auto simp: finite_vec_def)
  obtain s2 p2 where ay: "y a = Fin s2 p2" using fa by (cases "y a") (auto simp: finite_vec_def)
  obtain t1 q1 where bx: "x b = Fin t1 q1" using fb by (cases "x b") (auto simp: finite_vec_def)
  obtain t2 q2 where bye: "y b = Fin t2 q2" using fb by (cases "y b") (auto simp: finite_vec_def)
  have nn: "0 \<le> p1" "0 \<le> p2" "0 \<le> q1" "0 \<le> q2"
    using va vb ax ay bx bye by (auto simp: valid_vec_def dest: is_mag_nonneg)
  have e: "sval s1 p1 * sval t2 q2 = sval s2 p2 * sval t1 q1"
    using par by (simp add: parallel_def ax ay bx bye)
  have m: "p1 * q2 = p2 * q1"
  proof -
    have "\<bar>sval s1 p1 * sval t2 q2\<bar> = \<bar>sval s2 p2 * sval t1 q1\<bar>" using e by simp
    then show ?thesis using nn by (simp add: abs_mult sval_def split: if_splits)
  qed
  have sg: "p1 * q2 \<noteq> 0 \<Longrightarrow> (s1 \<noteq> t2) = (s2 \<noteq> t1)"
  proof -
    assume nz: "p1 * q2 \<noteq> 0"
    then have pos: "0 < p1 * q2" using nn by (simp add: zero_less_mult_iff less_le)
    show ?thesis
      using e m pos by (auto simp: sval_def split: if_splits)
  qed
  let ?r = "round_mag (p1 * q2)"
  have r1: "double_mul (x a) (y b) = Fin (s1 \<noteq> t2) ?r"
    using fin by (simp add: ax bye round_double_def Let_def split: if_splits)
  then have "\<not> 2 ^ 1024 \<le> ?r"
    by (simp add: ax bye round_double_def Let_def split: if_splits)
  then have r2: "double_mul (y a) (x b) = Fin (s2 \<noteq> t1) ?r"
    by (simp add: ay bx round_double_def Let_def m)
  show ?thesis
  proof (cases "p1 * q2 = 0")
    case True
    then have "?r = 0" by (simp only: round_mag_zero)
    then show ?thesis
      unfolding cross_def r1 r2 double_sub_Fin by (simp add: sval_def d_zero_def)
  next
    case False
    then have "(s1 \<noteq> t2) = (s2 \<noteq> t1)" by (rule sg)
    then show ?thesis
      unfolding cross_def r1 r2 double_sub_Fin by (simp add: sval_def d_zero_def)
  qed
qed

text \<open>
  C8 (amended).  \<open>cross\<close> returns \<open>x * other.y - y * other.x\<close>, each operation rounded.
  \<open>Vec2(1,0).cross(Vec2(0,1))\<close> is \<open>1\<close> and \<open>Vec2(0,1).cross(Vec2(1,0))\<close> is \<open>-1\<close>.  For
  finite vectors that are parallel (their exact cross product is zero, which holds when
  either is the zero vector) the result compares equal to \<open>0\<close>, provided the product
  \<open>x * other.y\<close> does not overflow.
\<close>

theorem cross_sign_convention:
  "cross a b = double_sub (double_mul (x a) (y b)) (double_mul (y a) (x b))
   \<and> cross \<lparr>x = d_one, y = d_zero\<rparr> \<lparr>x = d_zero, y = d_one\<rparr> = d_one
   \<and> cross \<lparr>x = d_zero, y = d_one\<rparr> \<lparr>x = d_one, y = d_zero\<rparr> = double_neg d_one
   \<and> (valid_vec a \<and> valid_vec b \<and> finite_vec a \<and> finite_vec b \<and> parallel a b
        \<and> is_finite (double_mul (x a) (y b)) \<longrightarrow> double_eq (cross a b) d_zero)"
proof -
  have 1: "cross \<lparr>x = d_one, y = d_zero\<rparr> \<lparr>x = d_zero, y = d_one\<rparr> = d_one"
    by (simp add: cross_def d_one_def d_zero_def double_sub_def round_eval)
  have 2: "cross \<lparr>x = d_zero, y = d_one\<rparr> \<lparr>x = d_one, y = d_zero\<rparr> = double_neg d_one"
    by (simp add: cross_def d_one_def d_zero_def double_sub_def round_eval)
  show ?thesis
    using 1 2 cross_parallel[of a b] by (simp add: cross_def)
qed

theorem cross_sign_convention_witness:
  "valid_vec \<lparr>x = Fin False 2, y = Fin False 4\<rparr>
   \<and> valid_vec \<lparr>x = Fin True 3, y = Fin True 6\<rparr>
   \<and> parallel \<lparr>x = Fin False 2, y = Fin False 4\<rparr> \<lparr>x = Fin True 3, y = Fin True 6\<rparr>
   \<and> is_finite (double_mul (Fin False 2) (Fin True 6))
   \<and> double_eq (cross \<lparr>x = Fin False 2, y = Fin False 4\<rparr> \<lparr>x = Fin True 3, y = Fin True 6\<rparr>)
        d_zero"
proof -
  have h: "valid_vec \<lparr>x = Fin False 2, y = Fin False 4\<rparr>"
    "valid_vec \<lparr>x = Fin True 3, y = Fin True 6\<rparr>"
    "finite_vec \<lparr>x = Fin False 2, y = Fin False 4\<rparr>"
    "finite_vec \<lparr>x = Fin True 3, y = Fin True 6\<rparr>"
    "parallel \<lparr>x = Fin False 2, y = Fin False 4\<rparr> \<lparr>x = Fin True 3, y = Fin True 6\<rparr>"
    "is_finite (double_mul (x \<lparr>x = Fin False 2, y = Fin False 4\<rparr>)
       (y \<lparr>x = Fin True 3, y = Fin True 6\<rparr>))"
    by (simp_all add: valid_vec_def finite_vec_def parallel_def is_mag_def round_eval)
  have "double_eq (cross \<lparr>x = Fin False 2, y = Fin False 4\<rparr>
      \<lparr>x = Fin True 3, y = Fin True 6\<rparr>) d_zero"
    using h cross_sign_convention[of "\<lparr>x = Fin False 2, y = Fin False 4\<rparr>"
        "\<lparr>x = Fin True 3, y = Fin True 6\<rparr>"]
    by blast
  then show ?thesis
    using h by simp
qed

text \<open>
  C8, as stated, fails.  The zero vector against \<open>(+\<infinity>, 0.0)\<close> gives \<open>0 * \<infinity>\<close>, a NaN;
  and the parallel finite vectors \<open>a = b = (2^600, 2^600)\<close> give \<open>\<infinity> - \<infinity>\<close>, a NaN.
  Neither result compares equal to \<open>0\<close>.
\<close>

theorem cross_parallel_nan:
  "cross \<lparr>x = d_zero, y = d_zero\<rparr> \<lparr>x = Inf False, y = d_zero\<rparr> = NaN
   \<and> \<not> double_eq (cross \<lparr>x = d_zero, y = d_zero\<rparr> \<lparr>x = Inf False, y = d_zero\<rparr>) d_zero
   \<and> valid_vec \<lparr>x = Fin False (2 powi 600), y = Fin False (2 powi 600)\<rparr>
   \<and> parallel \<lparr>x = Fin False (2 powi 600), y = Fin False (2 powi 600)\<rparr>
        \<lparr>x = Fin False (2 powi 600), y = Fin False (2 powi 600)\<rparr>
   \<and> cross \<lparr>x = Fin False (2 powi 600), y = Fin False (2 powi 600)\<rparr>
        \<lparr>x = Fin False (2 powi 600), y = Fin False (2 powi 600)\<rparr> = NaN"
proof -
  have m: "is_mag (2 powi 600)" by (rule is_mag_powi) simp_all
  have o: "round_double s (2 powi 1200) = Inf s" for s
    by (rule round_double_overflow) simp
  show ?thesis
    using m
    by (simp add: valid_vec_def parallel_def cross_def double_sub_def d_zero_def o
        del: power_int_numeral)
qed


section \<open>Linear interpolation\<close>

text \<open>
  \<open>lerp\<close> is \<open>*this + (o - *this) * t\<close> with every operation rounded, for every \<open>t\<close>;
  nothing is clamped or rejected.  The endpoint \<open>t = 0\<close> is met whenever \<open>a\<close> is finite
  and \<open>b - a\<close> does not overflow.  The endpoint \<open>t = 1\<close> is met when the subtraction
  \<open>b - a\<close> happens to be exact, as it is from the zero vector.
\<close>

lemma lerp_at_zero:
  assumes "valid_vec a" "finite_vec a" "finite_vec (Vec2_minus b a)"
  shows "Vec2_eq (lerp a b d_zero) a"
  using assms
  by (simp add: Vec2_eq_def lerp_def Vec2_plus_def Vec2_times_def Vec2_minus_def
      valid_vec_def finite_vec_def lerp_component_zero)

lemma lerp_at_one:
  assumes "valid_vec a" "valid_vec b" "finite_vec a" "finite_vec b" "exact_minus b a"
  shows "Vec2_eq (lerp a b d_one) b"
  using assms
  by (simp add: Vec2_eq_def lerp_def Vec2_plus_def Vec2_times_def Vec2_minus_def
      valid_vec_def finite_vec_def exact_minus_def lerp_component_one)

lemma lerp_from_origin:
  assumes "valid_vec b" "finite_vec b"
  shows "Vec2_eq (lerp Vec2_default b d_one) b"
proof -
  have "exact_minus b Vec2_default"
    using assms by (simp add: exact_minus_def Vec2_default_def valid_vec_def finite_vec_def
        exact_sub_zero)
  moreover have "valid_vec Vec2_default" "finite_vec Vec2_default"
    by (simp_all add: valid_vec_def finite_vec_def Vec2_default_def d_zero_def)
  ultimately show ?thesis using assms by (intro lerp_at_one)
qed

text \<open>
  The formula extrapolates: with \<open>a = (0, 0)\<close> and \<open>b = (10, 20)\<close>, \<open>t = 0.5\<close> gives
  \<open>(5, 10)\<close>, \<open>t = 2\<close> gives \<open>(20, 40)\<close> and \<open>t = -1\<close> gives \<open>(-10, -20)\<close>.
\<close>

lemma lerp_examples:
  "lerp Vec2_default \<lparr>x = Fin False 10, y = Fin False 20\<rparr> (Fin False (1 / 2))
     = \<lparr>x = Fin False 5, y = Fin False 10\<rparr>"
  "lerp Vec2_default \<lparr>x = Fin False 10, y = Fin False 20\<rparr> (Fin False 2)
     = \<lparr>x = Fin False 20, y = Fin False 40\<rparr>"
  "lerp Vec2_default \<lparr>x = Fin False 10, y = Fin False 20\<rparr> (Fin True 1)
     = \<lparr>x = Fin True 10, y = Fin True 20\<rparr>"
  by (simp_all add: lerp_def Vec2_plus_def Vec2_times_def Vec2_minus_def Vec2_default_def
      d_zero_def double_sub_def round_eval)

text \<open>
  With an infinite difference the endpoint \<open>t = 0\<close> is lost to \<open>\<infinity> * 0\<close>, a NaN: the
  operators check neither overflow nor NaN.
\<close>

lemma lerp_zero_infinite:
  "\<not> Vec2_eq (lerp \<lparr>x = Fin False 0, y = Fin False 0\<rparr>
                 \<lparr>x = Inf False, y = Fin False 0\<rparr> d_zero)
          \<lparr>x = Fin False 0, y = Fin False 0\<rparr>"
  by (simp add: lerp_def Vec2_plus_def Vec2_times_def Vec2_minus_def d_zero_def
      double_sub_def Vec2_eq_def)

text \<open>
  C3.  The header documents \<open>t=0 returns this, t=1 returns o\<close>, and \<open>test_vec2_lerp\<close>
  asserts \<open>a.lerp(b, 1) == b\<close>.  The code misses the endpoint \<open>t = 1\<close> on ordinary finite
  inputs, because \<open>b - a\<close> is rounded before it is added back to \<open>a\<close>.  For \<open>a = (1, 0)\<close>
  and \<open>b = (2^-60, 0)\<close> the difference rounds to \<open>-1\<close> and the result is \<open>(0, 0)\<close>.  For
  \<open>a = (0.4, 0)\<close> and \<open>b = (0.1, 0)\<close>, the doubles \<open>7205759403792794 / 2^54\<close> and
  \<open>7205759403792794 / 2^56\<close>, the result is \<open>7205759403792792 / 2^56\<close>, two units in the
  last place below \<open>b\<close>.
\<close>

theorem lerp_endpoint_one_missed:
  "valid_vec \<lparr>x = Fin False 1, y = Fin False 0\<rparr>
   \<and> valid_vec \<lparr>x = Fin False (2 powi (- 60)), y = Fin False 0\<rparr>
   \<and> lerp \<lparr>x = Fin False 1, y = Fin False 0\<rparr>
        \<lparr>x = Fin False (2 powi (- 60)), y = Fin False 0\<rparr> d_one
       = \<lparr>x = Fin False 0, y = Fin False 0\<rparr>
   \<and> \<not> Vec2_eq (lerp \<lparr>x = Fin False 1, y = Fin False 0\<rparr>
                 \<lparr>x = Fin False (2 powi (- 60)), y = Fin False 0\<rparr> d_one)
          \<lparr>x = Fin False (2 powi (- 60)), y = Fin False 0\<rparr>
   \<and> valid_vec \<lparr>x = Fin False (7205759403792794 / 2 ^ 54), y = Fin False 0\<rparr>
   \<and> valid_vec \<lparr>x = Fin False (7205759403792794 / 2 ^ 56), y = Fin False 0\<rparr>
   \<and> lerp \<lparr>x = Fin False (7205759403792794 / 2 ^ 54), y = Fin False 0\<rparr>
        \<lparr>x = Fin False (7205759403792794 / 2 ^ 56), y = Fin False 0\<rparr> d_one
       = \<lparr>x = Fin False (7205759403792792 / 2 ^ 56), y = Fin False 0\<rparr>
   \<and> \<not> Vec2_eq (lerp \<lparr>x = Fin False (7205759403792794 / 2 ^ 54), y = Fin False 0\<rparr>
                 \<lparr>x = Fin False (7205759403792794 / 2 ^ 56), y = Fin False 0\<rparr> d_one)
          \<lparr>x = Fin False (7205759403792794 / 2 ^ 56), y = Fin False 0\<rparr>"
proof -
  have m: "is_mag (2 powi (- 60))" by (rule is_mag_powi) simp_all
  have m1: "is_mag 1" by (simp add: is_mag_def round_eval)
  have l: "lerp \<lparr>x = Fin False 1, y = Fin False 0\<rparr>
        \<lparr>x = Fin False (2 powi (- 60)), y = Fin False 0\<rparr> d_one
       = \<lparr>x = Fin False 0, y = Fin False 0\<rparr>"
    by (simp add: lerp_def Vec2_plus_def Vec2_times_def Vec2_minus_def d_one_def
        double_sub_def round_eval)
  have v1: "valid_vec \<lparr>x = Fin False 1, y = Fin False 0\<rparr>"
    using m1 by (simp add: valid_vec_def)
  have v2: "valid_vec \<lparr>x = Fin False (2 powi (- 60)), y = Fin False 0\<rparr>"
    unfolding valid_vec_def using m by (simp only: Vec2.simps is_double.simps is_mag_zero)
  have ne: "\<not> Vec2_eq (lerp \<lparr>x = Fin False 1, y = Fin False 0\<rparr>
                 \<lparr>x = Fin False (2 powi (- 60)), y = Fin False 0\<rparr> d_one)
          \<lparr>x = Fin False (2 powi (- 60)), y = Fin False 0\<rparr>"
    unfolding l by (simp add: Vec2_eq_def sval_def)
  have v3: "valid_vec \<lparr>x = Fin False (7205759403792794 / 2 ^ 54), y = Fin False 0\<rparr>"
    by (simp add: valid_vec_def is_mag_def round_eval)
  have v4: "valid_vec \<lparr>x = Fin False (7205759403792794 / 2 ^ 56), y = Fin False 0\<rparr>"
    by (simp add: valid_vec_def is_mag_def round_eval)
  have l2: "lerp \<lparr>x = Fin False (7205759403792794 / 2 ^ 54), y = Fin False 0\<rparr>
        \<lparr>x = Fin False (7205759403792794 / 2 ^ 56), y = Fin False 0\<rparr> d_one
       = \<lparr>x = Fin False (7205759403792792 / 2 ^ 56), y = Fin False 0\<rparr>"
    by (simp add: lerp_def Vec2_plus_def Vec2_times_def Vec2_minus_def d_one_def
        double_sub_def round_eval)
  have ne2: "\<not> Vec2_eq (lerp \<lparr>x = Fin False (7205759403792794 / 2 ^ 54), y = Fin False 0\<rparr>
                 \<lparr>x = Fin False (7205759403792794 / 2 ^ 56), y = Fin False 0\<rparr> d_one)
          \<lparr>x = Fin False (7205759403792794 / 2 ^ 56), y = Fin False 0\<rparr>"
    unfolding l2 by (simp add: Vec2_eq_def sval_def)
  show ?thesis
    using v1 v2 l ne v3 v4 l2 ne2 by blast
qed


lemma double_add_squares_zero_gen:
  assumes "double_add (double_mul c c) (double_mul d d) = Fin u 0"
  shows "double_mul c c = Fin False 0 \<and> double_mul d d = Fin False 0"
proof -
  obtain rc where c: "double_mul c c = Fin False (round_mag rc)"
    using double_square_cases[of c] assms
    by (cases "double_mul d d") (auto split: if_splits)
  obtain rd where d: "double_mul d d = Fin False (round_mag rd)"
    using double_square_cases[of d] assms c by auto
  have "round_mag rc = 0 \<and> round_mag rd = 0"
    using assms unfolding c d by (rule double_add_squares_zero)
  then show ?thesis using c d by simp
qed

lemma distance_to_zero_imp_eq:
  assumes fa: "finite_vec a" and fb: "finite_vec b" and sep: "separated_vec a b"
    and z: "double_eq (distance_to a b) d_zero"
  shows "Vec2_eq a b"
proof -
  let ?dx = "double_sub (x a) (x b)"
  let ?dy = "double_sub (y a) (y b)"
  let ?s = "double_add (double_mul ?dx ?dx) (double_mul ?dy ?dy)"
  have d: "distance_to a b = double_sqrt ?s"
    by (simp add: distance_to_def length_vec2_def Vec2_minus_def)
  have "is_double ?s" by simp
  then obtain u where "?s = Fin u 0"
    using z double_sqrt_eq_zero[of ?s] unfolding d by blast
  then have sq: "double_mul ?dx ?dx = Fin False 0" "double_mul ?dy ?dy = Fin False 0"
    using double_add_squares_zero_gen[of ?dx ?dy u] by simp_all
  have "double_eq (x a) (x b)"
    using fa fb sep sq(1)
    by (intro double_sub_square_zero) (simp_all add: finite_vec_def separated_vec_def)
  moreover have "double_eq (y a) (y b)"
    using fa fb sep sq(2)
    by (intro double_sub_square_zero) (simp_all add: finite_vec_def separated_vec_def)
  ultimately show ?thesis by (simp add: Vec2_eq_def)
qed

text \<open>
  C9 (amended).  \<open>distance_to\<close> and \<open>distance_sq_to\<close> are symmetric: both orders give the
  same double, so \<open>a.distance_to(b) == b.distance_to(a)\<close> whenever the distance is not a
  NaN.  For finite vectors, \<open>a == b\<close> implies that the distance is \<open>0\<close>, in particular
  \<open>a.distance_to(a) == 0\<close>; and a distance of \<open>0\<close> implies \<open>a == b\<close> when every component
  difference is zero or at least \<open>2^-537\<close> in magnitude, so that its square does not
  underflow.
\<close>

theorem distance_symmetric:
  "distance_to a b = distance_to b a
   \<and> distance_sq_to a b = distance_sq_to b a
   \<and> (\<not> is_nan (distance_to a b) \<longrightarrow> double_eq (distance_to a b) (distance_to b a))
   \<and> (\<not> is_nan (distance_sq_to a b) \<longrightarrow>
        double_eq (distance_sq_to a b) (distance_sq_to b a))
   \<and> (finite_vec a \<longrightarrow> double_eq (distance_to a a) d_zero)
   \<and> (finite_vec a \<and> finite_vec b \<and> Vec2_eq a b \<longrightarrow> double_eq (distance_to a b) d_zero)
   \<and> (finite_vec a \<and> finite_vec b \<and> separated_vec a b
        \<and> double_eq (distance_to a b) d_zero \<longrightarrow> Vec2_eq a b)"
proof -
  have z: "double_eq d_zero d_zero" by (simp add: d_zero_def)
  have 1: "\<not> is_nan (distance_to a b) \<longrightarrow> double_eq (distance_to a b) (distance_to b a)"
    using distance_to_sym[of b a] by (simp add: double_eq_refl_iff)
  have 2: "\<not> is_nan (distance_sq_to a b) \<longrightarrow>
      double_eq (distance_sq_to a b) (distance_sq_to b a)"
    using distance_sq_to_sym[of b a] by (simp add: double_eq_refl_iff)
  have 3: "finite_vec a \<longrightarrow> double_eq (distance_to a a) d_zero"
    using distance_to_self[of a] z by simp
  have 4: "finite_vec a \<and> finite_vec b \<and> Vec2_eq a b \<longrightarrow> double_eq (distance_to a b) d_zero"
    using distance_to_eq_zero[of a b] z by simp
  show ?thesis
    using distance_to_sym[of a b] distance_sq_to_sym[of a b] 1 2 3 4
      distance_to_zero_imp_eq[of a b]
    by blast
qed

theorem distance_symmetric_witness:
  "finite_vec \<lparr>x = Fin False 0, y = Fin False 0\<rparr>
   \<and> finite_vec \<lparr>x = Fin False 3, y = Fin False 4\<rparr>
   \<and> separated_vec \<lparr>x = Fin False 0, y = Fin False 0\<rparr> \<lparr>x = Fin False 3, y = Fin False 4\<rparr>
   \<and> distance_to \<lparr>x = Fin False 0, y = Fin False 0\<rparr> \<lparr>x = Fin False 3, y = Fin False 4\<rparr>
       = Fin False 5
   \<and> double_eq (distance_to \<lparr>x = Fin False 0, y = Fin False 0\<rparr> \<lparr>x = Fin False 3, y = Fin False 4\<rparr>)
        (distance_to \<lparr>x = Fin False 3, y = Fin False 4\<rparr> \<lparr>x = Fin False 0, y = Fin False 0\<rparr>)
   \<and> double_eq (distance_sq_to \<lparr>x = Fin False 0, y = Fin False 0\<rparr> \<lparr>x = Fin False 3, y = Fin False 4\<rparr>)
        (distance_sq_to \<lparr>x = Fin False 3, y = Fin False 4\<rparr> \<lparr>x = Fin False 0, y = Fin False 0\<rparr>)
   \<and> double_eq (distance_to \<lparr>x = Fin False 3, y = Fin False 4\<rparr> \<lparr>x = Fin False 3, y = Fin False 4\<rparr>)
        d_zero
   \<and> separated_vec \<lparr>x = Fin False 3, y = Fin False 4\<rparr> \<lparr>x = Fin False 3, y = Fin False 4\<rparr>
   \<and> Vec2_eq \<lparr>x = Fin False 3, y = Fin False 4\<rparr> \<lparr>x = Fin False 3, y = Fin False 4\<rparr>"
proof -
  let ?o = "\<lparr>x = Fin False 0, y = Fin False 0\<rparr>"
  let ?v = "\<lparr>x = Fin False 3, y = Fin False 4\<rparr>"
  have f: "finite_vec ?o" "finite_vec ?v" by (simp_all add: finite_vec_def)
  have s: "separated_vec ?o ?v" "separated_vec ?v ?v"
    by (simp_all add: separated_vec_def separated_def sval_def)
  have d: "distance_to ?o ?v = Fin False 5"
    by (simp add: distance_to_def length_vec2_def Vec2_minus_def double_sub_def
        sqrt_mag_def isqrt.simps power_divide round_eval)
  have dq: "distance_sq_to ?o ?v = Fin False 25"
    by (simp add: distance_sq_to_def length_sq_def Vec2_minus_def double_sub_def round_eval)
  have n: "\<not> is_nan (distance_to ?o ?v)" "\<not> is_nan (distance_sq_to ?o ?v)"
    by (simp_all add: d dq)
  have e1: "double_eq (distance_to ?o ?v) (distance_to ?v ?o)"
    "double_eq (distance_sq_to ?o ?v) (distance_sq_to ?v ?o)"
    using n distance_symmetric[of ?o ?v] by blast+
  have e2: "double_eq (distance_to ?v ?v) d_zero"
    using f distance_symmetric[of ?v ?v] by blast
  have e3: "Vec2_eq ?v ?v"
    using f s e2 distance_symmetric[of ?v ?v] by blast
  show ?thesis using f s d e1 e2 e3 by blast
qed

text \<open>
  C9, as stated, fails.  For \<open>a = b = (+\<infinity>, 0)\<close> the vectors are equal, yet the distance
  is a NaN: it is not \<open>0\<close> and does not compare equal to itself, so the symmetry stated
  with \<open>==\<close> fails too.  For \<open>a = (2^-600, 0)\<close> and \<open>b = (0, 0)\<close> the square of the
  difference underflows, and the distance is \<open>0\<close> although \<open>a\<close> and \<open>b\<close> differ.
\<close>

theorem distance_zero_not_iff_equal:
  "Vec2_eq \<lparr>x = Inf False, y = Fin False 0\<rparr> \<lparr>x = Inf False, y = Fin False 0\<rparr>
   \<and> \<not> double_eq (distance_to \<lparr>x = Inf False, y = Fin False 0\<rparr>
                     \<lparr>x = Inf False, y = Fin False 0\<rparr>) d_zero
   \<and> \<not> double_eq (distance_to \<lparr>x = Inf False, y = Fin False 0\<rparr>
                     \<lparr>x = Inf False, y = Fin False 0\<rparr>)
          (distance_to \<lparr>x = Inf False, y = Fin False 0\<rparr> \<lparr>x = Inf False, y = Fin False 0\<rparr>)
   \<and> valid_vec \<lparr>x = Fin False (2 powi (- 600)), y = Fin False 0\<rparr>
   \<and> double_eq (distance_to \<lparr>x = Fin False (2 powi (- 600)), y = Fin False 0\<rparr>
                   \<lparr>x = Fin False 0, y = Fin False 0\<rparr>) d_zero
   \<and> \<not> Vec2_eq \<lparr>x = Fin False (2 powi (- 600)), y = Fin False 0\<rparr>
          \<lparr>x = Fin False 0, y = Fin False 0\<rparr>"
proof -
  let ?i = "\<lparr>x = Inf False, y = Fin False 0\<rparr>"
  let ?a = "\<lparr>x = Fin False (2 powi (- 600)), y = Fin False 0\<rparr>"
  let ?o = "\<lparr>x = Fin False 0, y = Fin False 0\<rparr>"
  have i: "distance_to ?i ?i = NaN"
    by (simp add: distance_to_def length_vec2_def Vec2_minus_def double_sub_def)
  have m: "is_mag (2 powi (- 600))" by (rule is_mag_powi) simp_all
  have v: "valid_vec ?a"
    unfolding valid_vec_def using m by (simp only: Vec2.simps is_double.simps is_mag_zero)
  have p: "(0::real) < 2 powi (- 600)" by simp
  have sx: "double_sub (Fin False (2 powi (- 600))) (Fin False 0) = Fin False (2 powi (- 600))"
    unfolding double_sub_Fin using p m by (simp add: sval_def round_double_id)
  have "(2::real) powi (- 600) * 2 powi (- 600) = 2 powi (- 1200)"
    using power_int_add[of "2::real" "- 600" "- 600"] by simp
  moreover have "(2::real) powi (- 1200) \<le> 2 powi (- 1075)"
    by (intro power_int_increasing) auto
  ultimately have u: "round_double False (2 powi (- 600) * 2 powi (- 600)) = Fin False 0"
    by (intro round_double_underflow) auto
  have "double_mul (Fin False (2 powi (- 600))) (Fin False (2 powi (- 600))) = Fin False 0"
    using u by (simp only: double_mul.simps) simp
  then have d: "distance_to ?a ?o = Fin False 0"
    unfolding distance_to_def length_vec2_def Vec2_minus_def
    by (simp only: Vec2.simps sx) (simp add: double_sub_def sval_def)
  have ne: "\<not> Vec2_eq ?a ?o" using p by (simp add: Vec2_eq_def sval_def)
  have e: "Vec2_eq ?i ?i" by (simp add: Vec2_eq_def sval_def)
  have z: "double_eq (Fin False 0) d_zero" "\<not> double_eq NaN d_zero" "\<not> double_eq NaN NaN"
    by (simp_all add: d_zero_def)
  show ?thesis
    using e v ne z unfolding i d by blast
qed



lemma normalized_unit_moderate:
  assumes "moderate v"
  shows "is_finite (length_vec2 (normalized v))"
    and "\<bar>double_val (length_vec2 (normalized v)) - 1\<bar> \<le> 5 * 2 powi (- 50)"
proof -
  obtain s p where vx: "x v = Fin s p"
    using assms by (cases "x v") (auto simp: moderate_def finite_vec_def)
  obtain t q where vy: "y v = Fin t q"
    using assms by (cases "y v") (auto simp: moderate_def finite_vec_def)
  have v: "v = \<lparr>x = Fin s p, y = Fin t q\<rparr>" using vx vy by (cases v) simp
  have p: "0 \<le> p" and q: "0 \<le> q"
    using assms vx vy by (auto simp: moderate_def valid_vec_def dest: is_mag_nonneg)
  have sq: "(sval s p)\<^sup>2 = p\<^sup>2" "(sval t q)\<^sup>2 = q\<^sup>2" by (simp_all add: sval_def)
  have lo: "2 powi (- 1000) \<le> p\<^sup>2 + q\<^sup>2" and hi: "p\<^sup>2 + q\<^sup>2 \<le> 2 powi 1000"
    using assms unfolding moderate_def vx vy double_val.simps sq by blast+
  obtain L where "length_vec2 (normalized v) = Fin False L" "\<bar>L - 1\<bar> \<le> 5 * 2 powi (- 50)"
    using normalized_unit_length[OF p q lo hi, of s t] unfolding v by blast
  then show "is_finite (length_vec2 (normalized v))"
    and "\<bar>double_val (length_vec2 (normalized v)) - 1\<bar> \<le> 5 * 2 powi (- 50)"
    by (simp_all add: sval_def)
qed

text \<open>
  C1 (amended).  \<open>normalized()\<close> is total.  The length of a vector is a NaN, zero or
  positive.  If the length is positive the result is \<open>v / v.length()\<close>; if the length is
  zero or a NaN the result is the zero vector.  For every finite vector whose exact
  length lies between \<open>2^-500\<close> and \<open>2^500\<close> the length of the result is within \<open>1e-9\<close>
  of \<open>1\<close>.
\<close>

theorem normalized_total:
  "normalized v =
     (if double_gt (length_vec2 v) d_zero then Vec2_divide v (SDouble (length_vec2 v))
      else Vec2_default)
   \<and> (is_nan (length_vec2 v) \<or> double_eq (length_vec2 v) d_zero
        \<or> double_gt (length_vec2 v) d_zero)
   \<and> (double_eq (length_vec2 v) d_zero \<longrightarrow> normalized v = Vec2_default)
   \<and> (is_nan (length_vec2 v) \<longrightarrow> normalized v = Vec2_default)
   \<and> (double_gt (length_vec2 v) d_zero \<longrightarrow>
        normalized v = Vec2_divide v (SDouble (length_vec2 v)))
   \<and> (moderate v \<longrightarrow>
        is_finite (length_vec2 (normalized v))
        \<and> \<bar>double_val (length_vec2 (normalized v)) - 1\<bar> < 1 / 10 ^ 9)"
proof -
  have "5 * (2::real) powi (- 50) < 1 / 10 ^ 9" by simp
  then have u: "moderate v \<longrightarrow>
      is_finite (length_vec2 (normalized v))
      \<and> \<bar>double_val (length_vec2 (normalized v)) - 1\<bar> < 1 / 10 ^ 9"
    using normalized_unit_moderate[of v] by linarith
  show ?thesis
    using length_vec2_sign[of v] double_gt_zero_excl[of "length_vec2 v"] u
    by (auto simp: normalized_cases)
qed

theorem normalized_total_witness:
  "length_vec2 \<lparr>x = Fin False 3, y = Fin False 4\<rparr> = Fin False 5
   \<and> double_gt (length_vec2 \<lparr>x = Fin False 3, y = Fin False 4\<rparr>) d_zero
   \<and> normalized \<lparr>x = Fin False 3, y = Fin False 4\<rparr>
       = Vec2_divide \<lparr>x = Fin False 3, y = Fin False 4\<rparr> (SDouble (Fin False 5))
   \<and> double_eq (length_vec2 Vec2_default) d_zero
   \<and> normalized Vec2_default = Vec2_default
   \<and> moderate \<lparr>x = Fin False 3, y = Fin False 4\<rparr>
   \<and> is_finite (length_vec2 (normalized \<lparr>x = Fin False 3, y = Fin False 4\<rparr>))
   \<and> \<bar>double_val (length_vec2 (normalized \<lparr>x = Fin False 3, y = Fin False 4\<rparr>)) - 1\<bar>
       < 1 / 10 ^ 9"
proof -
  let ?v = "\<lparr>x = Fin False 3, y = Fin False 4\<rparr>"
  have l: "length_vec2 ?v = Fin False 5"
    by (simp add: length_vec2_def sqrt_mag_def isqrt.simps power_divide round_eval)
  have g: "double_gt (length_vec2 ?v) d_zero"
    by (simp add: l double_gt_def d_zero_def sval_def)
  have z: "double_eq (length_vec2 Vec2_default) d_zero"
    by (simp add: length_vec2_def Vec2_default_def d_zero_def sval_def)
  have "normalized ?v = Vec2_divide ?v (SDouble (length_vec2 ?v))"
    using g normalized_total[of ?v] by blast
  moreover have "normalized Vec2_default = Vec2_default"
    using z normalized_total[of Vec2_default] by blast
  moreover have m: "moderate ?v"
    by (simp add: moderate_def valid_vec_def finite_vec_def is_mag_def round_eval)
  moreover have "is_finite (length_vec2 (normalized ?v))
      \<and> \<bar>double_val (length_vec2 (normalized ?v)) - 1\<bar> < 1 / 10 ^ 9"
    using m normalized_total[of ?v] by blast
  ultimately show ?thesis using l g z by simp
qed

text \<open>
  C1, as stated, fails.  For \<open>v = (2^600, 0)\<close> the square overflows, the length is
  \<open>+\<infinity>\<close>, and \<open>v / v.length()\<close> is the zero vector, whose length is \<open>0\<close> and not within
  \<open>1e-9\<close> of \<open>1\<close>.  For \<open>v = (NaN, 0)\<close> the length is a NaN, which is not zero, and the
  result is the zero vector and not \<open>v / v.length()\<close>.
\<close>

theorem normalized_not_unit:
  "valid_vec \<lparr>x = Fin False (2 powi 600), y = Fin False 0\<rparr>
   \<and> length_vec2 \<lparr>x = Fin False (2 powi 600), y = Fin False 0\<rparr> = Inf False
   \<and> normalized \<lparr>x = Fin False (2 powi 600), y = Fin False 0\<rparr>
       = \<lparr>x = Fin False 0, y = Fin False 0\<rparr>
   \<and> length_vec2 (normalized \<lparr>x = Fin False (2 powi 600), y = Fin False 0\<rparr>) = Fin False 0
   \<and> \<not> double_eq (length_vec2 \<lparr>x = NaN, y = Fin False 0\<rparr>) d_zero
   \<and> normalized \<lparr>x = NaN, y = Fin False 0\<rparr> = \<lparr>x = Fin False 0, y = Fin False 0\<rparr>
   \<and> Vec2_divide \<lparr>x = NaN, y = Fin False 0\<rparr>
        (SDouble (length_vec2 \<lparr>x = NaN, y = Fin False 0\<rparr>)) = \<lparr>x = NaN, y = NaN\<rparr>"
proof -
  let ?v = "\<lparr>x = Fin False (2 powi 600), y = Fin False 0\<rparr>"
  let ?n = "\<lparr>x = NaN, y = Fin False 0\<rparr>"
  let ?o = "\<lparr>x = Fin False 0, y = Fin False 0\<rparr>"
  have m: "is_mag (2 powi 600)" by (rule is_mag_powi) simp_all
  have v: "valid_vec ?v"
    unfolding valid_vec_def using m by (simp only: Vec2.simps is_double.simps is_mag_zero)
  have "(2::real) powi 600 * 2 powi 600 = 2 powi 1200"
    using power_int_add[of "2::real" 600 600] by simp
  then have "round_double False (2 powi 600 * 2 powi 600) = Inf False"
    by (intro round_double_overflow) simp
  then have sq: "double_mul (Fin False (2 powi 600)) (Fin False (2 powi 600)) = Inf False"
    by (simp only: double_mul.simps) simp
  have l: "length_vec2 ?v = Inf False"
    unfolding length_vec2_def by (simp only: Vec2.simps sq) simp
  have n: "normalized ?v = ?o"
    unfolding normalized_cases l
    by (simp add: double_gt_def d_zero_def Vec2_divide_def)
  have lo: "length_vec2 ?o = Fin False 0"
    by (simp add: length_vec2_def sval_def)
  have ln: "length_vec2 ?n = NaN" by (simp add: length_vec2_def)
  have nn: "normalized ?n = ?o"
    unfolding normalized_cases ln
    by (simp add: double_gt_def d_zero_def Vec2_default_def)
  have dn: "Vec2_divide ?n (SDouble (length_vec2 ?n)) = \<lparr>x = NaN, y = NaN\<rparr>"
    unfolding ln by (simp add: Vec2_divide_def)
  have z: "\<not> double_eq (length_vec2 ?n) d_zero" unfolding ln by simp
  have lno: "length_vec2 (normalized ?v) = Fin False 0" unfolding n by (rule lo)
  show ?thesis using v l n lno z nn dn by blast
qed


end
